theory Spec2Isabelle
  imports Main "HOL-Library.Char_ord" "HOL-Library.List_Lexorder" "HOL-Library.Multiset"
begin

section \<open>SpaceTimeRotatingFileHandler: a shallow embedding\<close>

text \<open>
  The handler of \<^verbatim>\<open>SpaceTimeRotatingFileHandler.py\<close> inherits from the two rotating
  handlers of Python's logging library and overrides \<^verbatim>\<open>__init__\<close>, \<^verbatim>\<open>doRollover\<close> and
  \<^verbatim>\<open>shouldRollover\<close>. The three overridden methods are embedded below. What they call
  in the operating system and in the library (the clock's daylight-saving flag,
  \<^verbatim>\<open>strftime\<close>, \<^verbatim>\<open>computeRollover\<close>, the modification time of a file) is no part of the
  source file and is taken as a parameter, collected in the record \<open>lib\<close>.
\<close>

subsection \<open>Files of the log directory\<close>

text \<open>
  The directory of the base file is a list of entries (file name, content). A real
  directory never lists a name twice, which is the predicate \<open>wf_dir\<close>. Permissions
  and device errors are not modelled: an operation fails only where the file it
  needs is missing (or, for mode \<^verbatim>\<open>x\<close>, present).
\<close>

type_synonym filesystem = "(string \<times> string) list"

datatype error = FileNotFoundError | FileExistsError | ValueError

definition wf_dir :: "filesystem \<Rightarrow> bool" where
  "wf_dir fs = distinct (map fst fs)"

definition listdir :: "filesystem \<Rightarrow> string list" where
  "listdir fs = map fst fs"

definition path_exists :: "filesystem \<Rightarrow> string \<Rightarrow> bool" where
  "path_exists fs p = (p \<in> set (listdir fs))"

definition read_file :: "filesystem \<Rightarrow> string \<Rightarrow> string option" where
  "read_file fs p = map_of fs p"

definition os_remove :: "filesystem \<Rightarrow> string \<Rightarrow> error + filesystem" where
  "os_remove fs p =
     (if path_exists fs p then Inr (filter (\<lambda>e. fst e \<noteq> p) fs) else Inl FileNotFoundError)"

text \<open>\<^verbatim>\<open>os.rename\<close> as on POSIX: a file already at the destination is replaced.\<close>

definition os_rename :: "filesystem \<Rightarrow> string \<Rightarrow> string \<Rightarrow> error + filesystem" where
  "os_rename fs src dst =
     (if \<not> path_exists fs src then Inl FileNotFoundError
      else if src = dst then Inr fs
      else Inr (map (\<lambda>e. if fst e = src then (dst, snd e) else e)
                    (filter (\<lambda>e. fst e \<noteq> dst) fs)))"

text \<open>
  \<^verbatim>\<open>open(name, mode)\<close>. A mode is refused with \<^verbatim>\<open>ValueError\<close> when it holds a character
  other than \<^verbatim>\<open>a x r w b + t\<close>, or one of them twice, or both \<^verbatim>\<open>t\<close> and \<^verbatim>\<open>b\<close>, or not
  exactly one of \<^verbatim>\<open>r w a x\<close>. \<^verbatim>\<open>w\<close> truncates, \<^verbatim>\<open>a\<close> keeps what is there, both create
  a missing file; \<^verbatim>\<open>x\<close> wants the file missing and \<^verbatim>\<open>r\<close> wants it there.
\<close>

definition valid_mode :: "string \<Rightarrow> bool" where
  "valid_mode m =
     (set m \<subseteq> set ''axrwb+t'' \<and> distinct m \<and>
      \<not> (CHR ''t'' \<in> set m \<and> CHR ''b'' \<in> set m) \<and>
      length (filter (\<lambda>c. c \<in> set ''rwax'') m) = 1)"

definition os_open :: "filesystem \<Rightarrow> string \<Rightarrow> string \<Rightarrow> error + filesystem" where
  "os_open fs p m =
     (if \<not> valid_mode m then Inl ValueError
      else if CHR ''w'' \<in> set m then
        Inr (if path_exists fs p then map (\<lambda>e. if fst e = p then (p, []) else e) fs
             else fs @ [(p, [])])
      else if CHR ''a'' \<in> set m then
        Inr (if path_exists fs p then fs else fs @ [(p, [])])
      else if CHR ''x'' \<in> set m then
        (if path_exists fs p then Inl FileExistsError else Inr (fs @ [(p, [])]))
      else
        (if path_exists fs p then Inr fs else Inl FileNotFoundError))"

text \<open>Writing to the stream of a file appends to its content (buffering is not modelled).\<close>

definition stream_write :: "filesystem \<Rightarrow> string \<Rightarrow> string \<Rightarrow> filesystem" where
  "stream_write fs p s = map (\<lambda>e. if fst e = p then (p, snd e @ s) else e) fs"

subsection \<open>The handler and its surroundings\<close>

text \<open>
  The fields are the attributes the three methods read and write. \<open>stream\<close> is the
  name of the file the open stream writes to, or \<open>None\<close>. The attribute \<^verbatim>\<open>when\<close> is
  called \<open>when_unit\<close>, since \<open>when\<close> is a keyword of Isabelle.
\<close>

record handler =
  baseFilename :: string
  mode :: string
  maxBytes :: int
  backupCount :: int
  delay :: bool
  when_unit :: string
  interval :: int
  utc :: bool
  header :: "string option"
  suffix :: string
  rolloverAt :: int
  stream :: "string option"

text \<open>\<^verbatim>\<open>time.gmtime(t)\<close> and \<^verbatim>\<open>time.localtime(t)\<close>, kept as the call that made them.\<close>

datatype timeTuple = GmTime int | LocalTime int

record lib =
  isdst :: "int \<Rightarrow> bool"
  strftime :: "string \<Rightarrow> timeTuple \<Rightarrow> string"
  computeRollover :: "handler \<Rightarrow> int \<Rightarrow> int"
  mtime :: "string \<Rightarrow> int"

text \<open>
  \<open>isdst L t\<close> is the last component of \<^verbatim>\<open>time.localtime(t)\<close>, which is 0 or 1 there.
  \<open>mtime L p\<close> is \<^verbatim>\<open>os.stat(p)[ST_MTIME]\<close>. The world outside the handler is the
  directory and the lines printed on the console.
\<close>

record world =
  files :: filesystem
  console :: "string list"

subsection \<open>Formatting\<close>

function show_nat :: "nat \<Rightarrow> string" where
  "show_nat n =
     (if n < 10 then [''0123456789'' ! n]
      else show_nat (n div 10) @ [''0123456789'' ! (n mod 10)])"
  by pat_completeness auto
termination
  by (relation "measure id") auto

text \<open>\<^verbatim>\<open>"%03d" % n\<close>: the decimal digits, padded with zeros to three characters, sign included.\<close>

definition fmt_03d :: "int \<Rightarrow> string" where
  "fmt_03d n =
     (let ds = show_nat (nat \<bar>n\<bar>); sign = (if n < 0 then ''-'' else [])
      in sign @ replicate (3 - length sign - length ds) (CHR ''0'') @ ds)"

text \<open>\<^verbatim>\<open>"%s.%03d" % (dfn, n)\<close>\<close>

definition numbered :: "string \<Rightarrow> int \<Rightarrow> string" where
  "numbered dfn n = dfn @ ''.'' @ fmt_03d n"

definition startswith :: "string \<Rightarrow> string \<Rightarrow> bool" where
  "startswith s p = (take (length p) s = p)"

definition upper_char :: "char \<Rightarrow> char" where
  "upper_char c =
     (case map_of (zip ''abcdefghijklmnopqrstuvwxyz'' ''ABCDEFGHIJKLMNOPQRSTUVWXYZ'') c of
        None \<Rightarrow> c
      | Some u \<Rightarrow> u)"

definition upper :: "string \<Rightarrow> string" where
  "upper s = map upper_char s"

text \<open>The line terminator of \<^verbatim>\<open>'%s\n' % header\<close>.\<close>

definition header_line :: "string \<Rightarrow> string" where
  "header_line txt = txt @ [CHR 0x0A]"

subsection \<open>Methods inherited from the library\<close>

text \<open>
  \<^verbatim>\<open>rotation_filename\<close> returns the name unchanged and \<^verbatim>\<open>rotate\<close> renames the source
  when it exists: the handler sets neither \<^verbatim>\<open>namer\<close> nor \<^verbatim>\<open>rotator\<close>.
\<close>

definition rotation_filename :: "string \<Rightarrow> string" where
  "rotation_filename default_name = default_name"

definition rotate :: "filesystem \<Rightarrow> string \<Rightarrow> string \<Rightarrow> error + filesystem" where
  "rotate fs source dest = (if path_exists fs source then os_rename fs source dest else Inr fs)"

text \<open>
  Modelled from the spec: which files are backups of the destination. The method
  \<^verbatim>\<open>getFilesToDelete\<close> that decides it belongs to the library's timed handler and is
  missing from the source file. The spec names a backup from the base path, a
  formatted timestamp and, when the retention count is positive, a numeric
  disambiguator. So a backup is a file named by the base name, a dot, any text
  for the timestamp, a dot and three or more digits: every name that lines 72 to
  76 give to an archive is of this form. (The pattern of a library version that
  accepts the bare timestamp only does not see these names; the model follows the
  spec.)
\<close>

definition is_digit :: "char \<Rightarrow> bool" where
  "is_digit c = (c \<in> set ''0123456789'')"

definition numbered_ext :: "string \<Rightarrow> bool" where
  "numbered_ext ext =
     (let ds = takeWhile is_digit (rev ext)
      in 3 \<le> length ds \<and> take 1 (drop (length ds) (rev ext)) = ''.'')"

definition is_backup :: "handler \<Rightarrow> string \<Rightarrow> bool" where
  "is_backup h fileName =
     (let prefix = baseFilename h @ ''.''; plen = length prefix
      in take plen fileName = prefix \<and> numbered_ext (drop plen fileName))"

text \<open>
  Modelled from the spec: the list \<^verbatim>\<open>getFilesToDelete\<close> returns, missing from the source
  file like the method itself. The spec has the backups beyond the retention count
  deleted, oldest first by the archive's timestamp and index, so that at most that
  many remain, and the docstring of the class says that no more than
  \<^verbatim>\<open>backupCount\<close> files are kept, the oldest ones being deleted. Sorting the names
  puts the oldest first: when there are fewer backups than the retention count,
  none is deleted; otherwise the sorted backups except the last \<^verbatim>\<open>backupCount\<close>
  ones are.
\<close>

definition getFilesToDelete :: "handler \<Rightarrow> filesystem \<Rightarrow> string list" where
  "getFilesToDelete h fs =
     (let result = filter (is_backup h) (listdir fs)
      in if int (length result) < backupCount h then []
         else take (nat (int (length result) - backupCount h)) (sort result))"

text \<open>\<^verbatim>\<open>for s in ...: os.remove(s)\<close>: the first failure ends the loop.\<close>

fun remove_each :: "filesystem \<Rightarrow> string list \<Rightarrow> error + filesystem" where
  "remove_each fs [] = Inr fs"
| "remove_each fs (s # ss) =
     (case os_remove fs s of Inl e \<Rightarrow> Inl e | Inr fs' \<Rightarrow> remove_each fs' ss)"

subsection \<open>doRollover\<close>

text \<open>
  Lines 54 to 69: the name \<open>dfn\<close> of the archive, from the time the closed segment
  started at, \<open>rolloverAt - interval\<close>.
\<close>

definition archive_name :: "lib \<Rightarrow> handler \<Rightarrow> int \<Rightarrow> string" where
  "archive_name L h currentTime =
     (let dstNow = isdst L currentTime;
          t = rolloverAt h - interval h;
          timeTuple =
            (if utc h then GmTime t
             else let dstThen = isdst L t
                  in if dstNow \<noteq> dstThen
                     then LocalTime (t + (if dstNow then 3600 else - 3600))
                     else LocalTime t)
      in rotation_filename (baseFilename h @ ''.'' @ strftime L (suffix h) timeTuple))"

text \<open>
  Lines 74 and 75: the loop that looks for a name no file has. It may run forever,
  so it is a partial function and \<open>None\<close> is the run that does not end. The files do
  not change while it runs.
\<close>

partial_function (option) free_sfn ::
  "filesystem \<Rightarrow> string \<Rightarrow> int \<Rightarrow> string \<Rightarrow> string option" where
  "free_sfn fs dfn rotation_number sfn =
     (if path_exists fs sfn
      then free_sfn fs dfn rotation_number (rotation_filename (numbered dfn rotation_number))
      else Some sfn)"

text \<open>Lines 72 to 76: the search and the renaming of the base file.\<close>

definition numbered_rotate :: "filesystem \<Rightarrow> string \<Rightarrow> string \<Rightarrow> (error + filesystem) option" where
  "numbered_rotate fs base dfn =
     (case free_sfn fs dfn 1 (rotation_filename (numbered dfn 1)) of
        None \<Rightarrow> None
      | Some sfn \<Rightarrow> Some (rotate fs base sfn))"

text \<open>Lines 71 to 82: both branches on \<^verbatim>\<open>backupCount\<close>.\<close>

definition archive :: "handler \<Rightarrow> string \<Rightarrow> filesystem \<Rightarrow> (error + filesystem) option" where
  "archive h dfn fs =
     (if backupCount h > 0 then
        (case numbered_rotate fs (baseFilename h) dfn of
           None \<Rightarrow> None
         | Some (Inl e) \<Rightarrow> Some (Inl e)
         | Some (Inr fs1) \<Rightarrow> Some (remove_each fs1 (getFilesToDelete h fs1)))
      else
        Some (case (if path_exists fs dfn then os_remove fs dfn else Inr fs) of
                Inl e \<Rightarrow> Inl e
              | Inr fs1 \<Rightarrow> rotate fs1 (baseFilename h) dfn))"

text \<open>Lines 83 to 87: the new segment, its header and the line printed before it.\<close>

definition reopen :: "handler \<Rightarrow> world \<Rightarrow> error + handler \<times> world" where
  "reopen h w =
     (if \<not> delay h then
        (case os_open (files w) (baseFilename h) (mode h) of
           Inl e \<Rightarrow> Inl e
         | Inr fs1 \<Rightarrow>
             (let h1 = h\<lparr>stream := Some (baseFilename h)\<rparr>; w1 = w\<lparr>files := fs1\<rparr>
              in case header h of
                   None \<Rightarrow> Inr (h1, w1)
                 | Some txt \<Rightarrow>
                     Inr (h1, w1\<lparr>console := console w1 @ [''Hi!''],
                                 files := stream_write fs1 (baseFilename h) (header_line txt)\<rparr>)))
      else Inr (h, w))"

text \<open>Lines 90 and 91: the loop that moves the new time past the current one.\<close>

partial_function (option) advance :: "int \<Rightarrow> int \<Rightarrow> int \<Rightarrow> int option" where
  "advance step currentTime newRolloverAt =
     (if newRolloverAt \<le> currentTime then advance step currentTime (newRolloverAt + step)
      else Some newRolloverAt)"

text \<open>Lines 93 to 100: the adjustment for a change of daylight-saving time.\<close>

definition dst_adjust :: "lib \<Rightarrow> handler \<Rightarrow> bool \<Rightarrow> int \<Rightarrow> int" where
  "dst_adjust L h dstNow newRolloverAt =
     (if (when_unit h = ''MIDNIGHT'' \<or> startswith (when_unit h) ''W'') \<and> \<not> utc h then
        (let dstAtRollover = isdst L newRolloverAt
         in if dstNow \<noteq> dstAtRollover
            then newRolloverAt + (if \<not> dstNow then - 3600 else 3600)
            else newRolloverAt)
      else newRolloverAt)"

text \<open>Lines 89 to 101: the new value of \<open>rolloverAt\<close>.\<close>

definition next_rolloverAt :: "lib \<Rightarrow> handler \<Rightarrow> int \<Rightarrow> int option" where
  "next_rolloverAt L h currentTime =
     (case advance (interval h) currentTime (computeRollover L h currentTime) of
        None \<Rightarrow> None
      | Some newRolloverAt \<Rightarrow> Some (dst_adjust L h (isdst L currentTime) newRolloverAt))"

text \<open>
  The whole method. \<open>currentTime\<close> is what \<^verbatim>\<open>int(time.time())\<close> returns on line 54.
  The result is \<open>None\<close> when one of the two loops does not end, \<open>Some (Inl e)\<close> when
  an exception leaves the method and \<open>Some (Inr (h', w'))\<close> when it returns.
\<close>

definition doRollover :: "lib \<Rightarrow> int \<Rightarrow> handler \<Rightarrow> world \<Rightarrow> (error + handler \<times> world) option" where
  "doRollover L currentTime h w =
     (let h0 = h\<lparr>stream := None\<rparr>;
          dfn = archive_name L h0 currentTime
      in case archive h0 dfn (files w) of
           None \<Rightarrow> None
         | Some (Inl e) \<Rightarrow> Some (Inl e)
         | Some (Inr fs1) \<Rightarrow>
             (case reopen h0 (w\<lparr>files := fs1\<rparr>) of
                Inl e \<Rightarrow> Some (Inl e)
              | Inr (h1, w1) \<Rightarrow>
                  (case next_rolloverAt L h1 currentTime of
                     None \<Rightarrow> None
                   | Some r \<Rightarrow> Some (Inr (h1\<lparr>rolloverAt := r\<rparr>, w1)))))"

text \<open>Rollovers one after the other, at the given times; the first failure ends the run.\<close>

fun rollovers :: "lib \<Rightarrow> int list \<Rightarrow> handler \<Rightarrow> world \<Rightarrow> (error + handler \<times> world) option" where
  "rollovers L [] h w = Some (Inr (h, w))"
| "rollovers L (t # ts) h w =
     (case doRollover L t h w of
        None \<Rightarrow> None
      | Some (Inl e) \<Rightarrow> Some (Inl e)
      | Some (Inr (h', w')) \<Rightarrow> rollovers L ts h' w')"

text \<open>
  The backups the retention count is about, and the archived files of the
  destination at large: every file named by the base name, a dot and more.
\<close>

definition backups :: "handler \<Rightarrow> filesystem \<Rightarrow> string list" where
  "backups h fs = filter (is_backup h) (listdir fs)"

definition archived :: "handler \<Rightarrow> filesystem \<Rightarrow> string list" where
  "archived h fs = filter (\<lambda>n. startswith n (baseFilename h @ ''.'') \<and> n \<noteq> baseFilename h @ ''.'') (listdir fs)"

subsection \<open>The constructor\<close>

text \<open>
  The arguments of \<^verbatim>\<open>__init__\<close>. \<^verbatim>\<open>encoding\<close> only selects how text becomes bytes
  and \<^verbatim>\<open>archive\<close> is never read; both are left out.
\<close>

record config =
  c_filename :: string
  c_mode :: string
  c_maxBytes :: int
  c_backupCount :: int
  c_delay :: bool
  c_when :: string
  c_interval :: int
  c_utc :: bool
  c_header :: "string option"

text \<open>
  The constructors of the two parent classes are library code. What the handler's
  constructor relies on is written out after the library's source: the first parent
  forces mode \<^verbatim>\<open>a\<close> when \<^verbatim>\<open>maxBytes\<close> is positive and opens the file unless \<^verbatim>\<open>delay\<close> is
  set; the second opens it again in mode \<^verbatim>\<open>a\<close>, turns \<^verbatim>\<open>when\<close> to upper case, looks the
  unit up (the one place where a \<^verbatim>\<open>ValueError\<close> is raised), multiplies the seconds of
  the unit by \<^verbatim>\<open>interval\<close> and computes the first \<^verbatim>\<open>rolloverAt\<close> from the modification
  time of the file, or from the current time when there is no file.
\<close>

definition timed_unit :: "string \<Rightarrow> error + int \<times> string" where
  "timed_unit w =
     (if w = ''S'' then Inr (1, ''%Y-%m-%d_%H-%M-%S'')
      else if w = ''M'' then Inr (60, ''%Y-%m-%d_%H-%M'')
      else if w = ''H'' then Inr (60 * 60, ''%Y-%m-%d_%H'')
      else if w = ''D'' \<or> w = ''MIDNIGHT'' then Inr (60 * 60 * 24, ''%Y-%m-%d'')
      else if startswith w ''W'' then
        (if length w \<noteq> 2 then Inl ValueError
         else if w ! 1 < CHR ''0'' \<or> w ! 1 > CHR ''6'' then Inl ValueError
         else Inr (60 * 60 * 24 * 7, ''%Y-%m-%d''))
      else Inl ValueError)"

definition file_handler_init :: "filesystem \<Rightarrow> string \<Rightarrow> string \<Rightarrow> bool \<Rightarrow> error + filesystem \<times> string option" where
  "file_handler_init fs filename m dly =
     (if dly then Inr (fs, None)
      else case os_open fs filename m of
             Inl e \<Rightarrow> Inl e
           | Inr fs1 \<Rightarrow> Inr (fs1, Some filename))"

text \<open>
  \<^verbatim>\<open>__init__\<close>, lines 30 to 47. \<open>now\<close> is the current time the library reads when the
  file does not exist.
\<close>

definition init :: "lib \<Rightarrow> int \<Rightarrow> config \<Rightarrow> world \<Rightarrow> error + handler \<times> world" where
  "init L now c w =
     (case file_handler_init (files w) (c_filename c)
             (if c_maxBytes c > 0 then ''a'' else c_mode c) (c_delay c) of
        Inl e \<Rightarrow> Inl e
      | Inr (fs1, _) \<Rightarrow>
     (case file_handler_init fs1 (c_filename c) ''a'' (c_delay c) of
        Inl e \<Rightarrow> Inl e
      | Inr (fs2, strm) \<Rightarrow>
     (case timed_unit (upper (c_when c)) of
        Inl e \<Rightarrow> Inl e
      | Inr (unit_seconds, sfx) \<Rightarrow>
          (let h = \<lparr>baseFilename = c_filename c, mode = ''a'', maxBytes = c_maxBytes c,
                     backupCount = c_backupCount c, delay = c_delay c,
                     when_unit = upper (c_when c), interval = unit_seconds * c_interval c,
                     utc = c_utc c, header = c_header c, suffix = sfx,
                     rolloverAt = 0,
                     stream = strm\<rparr>;
               t = (if path_exists fs2 (c_filename c) then mtime L (c_filename c) else now);
               h' = h\<lparr>rolloverAt := computeRollover L h t\<rparr>
           in case c_header c of
                Some txt \<Rightarrow>
                  if \<not> c_delay c \<and> strm \<noteq> None
                  then Inr (h', w\<lparr>files := stream_write fs2 (c_filename c) (header_line txt)\<rparr>)
                  else Inr (h', w\<lparr>files := fs2\<rparr>)
              | None \<Rightarrow> Inr (h', w\<lparr>files := fs2\<rparr>)))))"

subsection \<open>shouldRollover\<close>

text \<open>
  Line 104 combines the checks of the two parents with \<^verbatim>\<open>or\<close>: the second one runs
  only when the first one is false, on the state the first one left. A check takes
  the handler, the world and the record, and raises or returns its answer and the
  new state. The record is given by the text \<^verbatim>\<open>self.format(record)\<close>.
\<close>

type_synonym 'r check = "handler \<Rightarrow> world \<Rightarrow> 'r \<Rightarrow> error + bool \<times> handler \<times> world"

definition shouldRollover :: "'r check \<Rightarrow> 'r check \<Rightarrow> 'r check" where
  "shouldRollover sizeCheck timeCheck h w record =
     (case sizeCheck h w record of
        Inl e \<Rightarrow> Inl e
      | Inr (a, h1, w1) \<Rightarrow> if a then Inr (a, h1, w1) else timeCheck h1 w1 record)"

text \<open>
  The two checks are methods of the library, written out after the library's
  source. Both begin with a guard for a base name that exists and is no regular
  file; the directory of this model holds regular files only, so the guard never
  applies and is left out. The size check opens the stream when there is none; the
  position it reads after seeking to the end is the size of the file.
\<close>

definition ensure_stream :: "handler \<Rightarrow> world \<Rightarrow> error + handler \<times> world" where
  "ensure_stream h w =
     (case stream h of
        Some s \<Rightarrow> Inr (h, w)
      | None \<Rightarrow>
          (case os_open (files w) (baseFilename h) (mode h) of
             Inl e \<Rightarrow> Inl e
           | Inr fs1 \<Rightarrow> Inr (h\<lparr>stream := Some (baseFilename h)\<rparr>, w\<lparr>files := fs1\<rparr>)))"

definition currentSegmentSize :: "handler \<Rightarrow> world \<Rightarrow> int" where
  "currentSegmentSize h w =
     (case read_file (files w) (baseFilename h) of None \<Rightarrow> 0 | Some s \<Rightarrow> int (length s))"

text \<open>
  The size check: with a positive \<^verbatim>\<open>maxBytes\<close> it is true when the position plus the
  length of the record and its line terminator is at least \<^verbatim>\<open>maxBytes\<close>; with
  \<^verbatim>\<open>maxBytes\<close> 0 or less it is false.
\<close>

definition size_check :: "string check" where
  "size_check h w record =
     (case ensure_stream h w of
        Inl e \<Rightarrow> Inl e
      | Inr (h1, w1) \<Rightarrow>
          if maxBytes h1 > 0 then
            (let msg = record @ [CHR 0x0A]
             in if currentSegmentSize h1 w1 + int (length msg) \<ge> maxBytes h1
                then Inr (True, h1, w1) else Inr (False, h1, w1))
          else Inr (False, h1, w1))"

text \<open>The time check; \<open>now\<close> is what \<^verbatim>\<open>int(time.time())\<close> returns in it.\<close>

definition time_check :: "int \<Rightarrow> string check" where
  "time_check now h w record = (if now \<ge> rolloverAt h then Inr (True, h, w) else Inr (False, h, w))"

text \<open>
  What the library's file handler does with a record once the decision on the
  rollover is taken: it opens the stream when there is none and writes the record
  and a line terminator.
\<close>

definition file_emit :: "handler \<Rightarrow> world \<Rightarrow> string \<Rightarrow> error + handler \<times> world" where
  "file_emit h w record =
     (case ensure_stream h w of
        Inl e \<Rightarrow> Inl e
      | Inr (h1, w1) \<Rightarrow>
          Inr (h1, w1\<lparr>files := stream_write (files w1) (baseFilename h1) (record @ [CHR 0x0A])\<rparr>))"

subsection \<open>The adjustment for daylight-saving time as the specification words it\<close>

text \<open>
  The specification compares the flag sampled at the start of the segment being
  closed, which is the time \<open>rolloverAt - interval\<close> of line 56, with the flag at the
  new time. This second definition follows those words; it is compared with
  \<open>dst_adjust\<close> below.
\<close>

definition dst_adjust_claimed :: "lib \<Rightarrow> handler \<Rightarrow> int \<Rightarrow> int" where
  "dst_adjust_claimed L h nextTime =
     (if (when_unit h = ''MIDNIGHT'' \<or> startswith (when_unit h) ''W'') \<and> \<not> utc h then
        (let dstStart = isdst L (rolloverAt h - interval h); dstNext = isdst L nextTime
         in if dstStart \<noteq> dstNext
            then (if dstNext then nextTime - 3600 else nextTime + 3600)
            else nextTime)
      else nextTime)"

subsection \<open>Concrete surroundings for the examples\<close>

text \<open>
  A library for the examples. \<open>day_string\<close> is \<^verbatim>\<open>strftime\<close> with
  the format \<^verbatim>\<open>%Y-%m-%d\<close> on the first two days after the epoch, in a zone whose
  standard time is UTC. \<open>plain_lib\<close> has no daylight-saving time and the
  \<^verbatim>\<open>computeRollover\<close> of the interval units. \<open>spring_lib\<close> and \<open>autumn_lib\<close> return
  the next midnight; in the first, daylight-saving time starts at the midnight
  86400, in the second it ends at 3600.
\<close>

definition day_string :: "int \<Rightarrow> string" where
  "day_string t = (if t < 86400 then ''1970-01-01'' else ''1970-01-02'')"

definition plain_lib :: lib where
  "plain_lib =
     \<lparr>isdst = (\<lambda>t. False),
      strftime = (\<lambda>f tt. case tt of GmTime t \<Rightarrow> day_string t | LocalTime t \<Rightarrow> day_string t),
      computeRollover = (\<lambda>h t. t + interval h),
      mtime = (\<lambda>p. 0)\<rparr>"

definition spring_lib :: lib where
  "spring_lib =
     plain_lib\<lparr>isdst := (\<lambda>t. 86400 \<le> t),
               computeRollover := (\<lambda>h t. (t div 86400 + 1) * 86400)\<rparr>"

definition autumn_lib :: lib where
  "autumn_lib =
     plain_lib\<lparr>isdst := (\<lambda>t. t < 3600),
               computeRollover := (\<lambda>h t. (t div 86400 + 1) * 86400)\<rparr>"

text \<open>
  A daily handler with one backup and a header, on the second day, and two
  directories for it: in the second one the name of the first numbered backup is
  taken.
\<close>

definition daily_handler :: handler where
  "daily_handler =
     \<lparr>baseFilename = ''app.log'', mode = ''a'', maxBytes = 50, backupCount = 1,
      delay = False, when_unit = ''D'', interval = 86400, utc = True, header = Some ''HDR'',
      suffix = ''%Y-%m-%d'', rolloverAt = 172800,
      stream = Some ''app.log''\<rparr>"

definition second_day :: world where
  "second_day =
     \<lparr>files = [(''app.log'', ''second day''), (''app.log.1970-01-01.001'', ''first day'')],
      console = []\<rparr>"

definition taken_name :: world where
  "taken_name =
     \<lparr>files = [(''app.log'', ''more''), (''app.log.1970-01-02.001'', ''second day'')],
      console = []\<rparr>"

text \<open>The same handler without backups and header, on the first day.\<close>

definition overwrite_handler :: handler where
  "overwrite_handler = daily_handler\<lparr>backupCount := 0, header := None, rolloverAt := 86400\<rparr>"

definition first_day :: world where
  "first_day = \<lparr>files = [(''app.log'', ''first day'')], console = []\<rparr>"

text \<open>A handler that rolls over at local midnight.\<close>

definition midnight_handler :: handler where
  "midnight_handler =
     daily_handler\<lparr>when_unit := ''MIDNIGHT'', utc := False, rolloverAt := 86400\<rparr>"

text \<open>Arguments for the constructor: the ones of the daily handler, and negative numbers.\<close>

definition daily_config :: config where
  "daily_config =
     \<lparr>c_filename = ''app.log'', c_mode = ''a'', c_maxBytes = 50, c_backupCount = 1,
      c_delay = False, c_when = ''d'', c_interval = 1, c_utc = True, c_header = Some ''HDR''\<rparr>"

definition negative_config :: config where
  "negative_config =
     daily_config\<lparr>c_maxBytes := - 1, c_backupCount := - 1, c_interval := - 7, c_header := None\<rparr>"

definition empty_dir :: world where
  "empty_dir = \<lparr>files = [], console = []\<rparr>"

text \<open>The daily handler with a deferred opening of the file.\<close>

definition deferred_handler :: handler where
  "deferred_handler = daily_handler\<lparr>delay := True\<rparr>"

section \<open>Properties\<close>

subsection \<open>Directory operations and pruning\<close>

lemma listdir_os_remove:
  "os_remove fs p = Inr fs' \<Longrightarrow> listdir fs' = filter (\<lambda>n. n \<noteq> p) (listdir fs)"
  by (auto simp: os_remove_def listdir_def filter_map comp_def split: if_splits)

lemma listdir_remove_each:
  "remove_each fs xs = Inr fs' \<Longrightarrow> listdir fs' = filter (\<lambda>n. n \<notin> set xs) (listdir fs)"
proof (induction xs arbitrary: fs)
  case Nil
  then show ?case by simp
next
  case (Cons x xs)
  from Cons.prems obtain fs1 where r: "os_remove fs x = Inr fs1" and rest: "remove_each fs1 xs = Inr fs'"
    by (auto split: sum.splits)
  from Cons.IH [OF rest] listdir_os_remove [OF r] show ?case
    by (auto intro: filter_cong)
qed

lemma remove_each_total:
  "distinct xs \<Longrightarrow> set xs \<subseteq> set (listdir fs) \<Longrightarrow> \<exists>fs'. remove_each fs xs = Inr fs'"
proof (induction xs arbitrary: fs)
  case Nil
  then show ?case by simp
next
  case (Cons x xs)
  then have ex: "path_exists fs x" by (simp add: path_exists_def)
  then obtain fs1 where r: "os_remove fs x = Inr fs1" by (simp add: os_remove_def)
  from listdir_os_remove [OF r] Cons.prems have "set xs \<subseteq> set (listdir fs1)" by auto
  with Cons.IH [of fs1] Cons.prems obtain fs' where "remove_each fs1 xs = Inr fs'" by auto
  with r show ?case by simp
qed

lemma length_filter_perm:
  "mset ys = mset zs \<Longrightarrow> length (filter Q ys) = length (filter Q zs)"
  by (metis mset_filter size_mset)

lemma prune_bound:
  fixes xs :: "string list"
  shows "length (filter P (filter (\<lambda>n. n \<notin> set (take k (sort (filter P xs)))) xs))
           \<le> length (filter P xs) - k"
proof -
  define ys where "ys = filter P xs"
  define zs where "zs = sort ys"
  define Q where "Q = (\<lambda>n. n \<notin> set (take k zs))"
  have "filter P (filter Q xs) = filter Q ys"
    by (simp add: ys_def conj_commute)
  moreover have "length (filter Q ys) = length (filter Q zs)"
    by (rule length_filter_perm) (simp add: zs_def)
  moreover have "filter Q zs = filter Q (take k zs) @ filter Q (drop k zs)"
    by (metis append_take_drop_id filter_append)
  moreover have "filter Q (take k zs) = []" by (simp add: filter_empty_conv Q_def)
  moreover have "length (filter Q (drop k zs)) \<le> length (drop k zs)" by (rule length_filter_le)
  moreover have "length (drop k zs) = length ys - k" by (simp add: zs_def)
  ultimately show ?thesis unfolding Q_def zs_def ys_def by simp
qed


lemma free_sfn_free: "\<not> path_exists fs sfn \<Longrightarrow> free_sfn fs dfn n sfn = Some sfn"
  by (simp add: free_sfn.simps)

lemma free_sfn_stuck_aux:
  assumes "free_sfn fs dfn n sfn = Some y"
  shows "\<not> (path_exists fs sfn \<and> path_exists fs (numbered dfn n))"
proof (rule free_sfn.raw_induct
    [where P = "\<lambda>fs dfn n sfn y. \<not> (path_exists fs sfn \<and> path_exists fs (numbered dfn n))",
      OF _ assms])
  fix f fs dfn n sfn and y :: string
  assume IH: "\<And>fs dfn n sfn y. f fs dfn n sfn = Some y \<Longrightarrow>
      \<not> (path_exists fs sfn \<and> path_exists fs (numbered dfn n))"
    and step: "(if path_exists fs sfn then f fs dfn n (rotation_filename (numbered dfn n))
      else Some sfn) = Some y"
  show "\<not> (path_exists fs sfn \<and> path_exists fs (numbered dfn n))"
  proof
    assume both: "path_exists fs sfn \<and> path_exists fs (numbered dfn n)"
    with step have "f fs dfn n (numbered dfn n) = Some y"
      by (simp add: rotation_filename_def)
    from IH [OF this] both show False by simp
  qed
qed

lemma free_sfn_stuck:
  "path_exists fs sfn \<Longrightarrow> path_exists fs (numbered dfn n) \<Longrightarrow> free_sfn fs dfn n sfn = None"
  using free_sfn_stuck_aux [of fs dfn n sfn] by (cases "free_sfn fs dfn n sfn") auto

lemma advance_past:
  assumes "0 < step"
  shows "\<exists>r. advance step now x = Some r \<and> now < r \<and> x \<le> r \<and> (now < x \<longrightarrow> r = x)"
proof (induction "nat (now - x + 1)" arbitrary: x rule: less_induct)
  case less
  show ?case
  proof (cases "x \<le> now")
    case True
    with assms have "nat (now - (x + step) + 1) < nat (now - x + 1)" by simp
    from less [OF this] obtain r where
      "advance step now (x + step) = Some r" "now < r" "x + step \<le> r" by blast
    with True assms show ?thesis by (subst advance.simps) auto
  next
    case False
    then show ?thesis by (subst advance.simps) auto
  qed
qed

lemma fmt_03d_1: "fmt_03d 1 = ''001''"
  by (simp add: fmt_03d_def eval_nat_numeral)

lemma numbered_1: "numbered dfn 1 = dfn @ ''.001''"
  by (simp add: numbered_def fmt_03d_1)

lemma numbered_rotate_free:
  "\<not> path_exists fs (numbered dfn 1) \<Longrightarrow>
     numbered_rotate fs base dfn = Some (rotate fs base (numbered dfn 1))"
  by (simp add: numbered_rotate_def rotation_filename_def free_sfn_free)

lemma numbered_rotate_stuck:
  "path_exists fs (numbered dfn 1) \<Longrightarrow> numbered_rotate fs base dfn = None"
  by (simp add: numbered_rotate_def rotation_filename_def free_sfn_stuck)

lemma listdir_renamed:
  "listdir (map (\<lambda>e. if fst e = src then (dst, snd e) else e) (filter (\<lambda>e. fst e \<noteq> dst) fs)) =
     map (\<lambda>n. if n = src then dst else n) (filter (\<lambda>n. n \<noteq> dst) (listdir fs))"
  by (induction fs) (auto simp: listdir_def)

lemma wf_dir_os_rename:
  assumes "wf_dir fs" "os_rename fs src dst = Inr fs'"
  shows "wf_dir fs'"
proof (cases "src = dst")
  case True
  with assms show ?thesis by (auto simp: os_rename_def split: if_splits)
next
  case False
  with assms(2) have "listdir fs' =
      map (\<lambda>n. if n = src then dst else n) (filter (\<lambda>n. n \<noteq> dst) (listdir fs))"
    by (auto simp: os_rename_def listdir_renamed split: if_splits)
  moreover have "distinct (filter (\<lambda>n. n \<noteq> dst) (listdir fs))"
    using assms(1) by (simp add: wf_dir_def listdir_def)
  moreover have "inj_on (\<lambda>n. if n = src then dst else n) (set (filter (\<lambda>n. n \<noteq> dst) (listdir fs)))"
    by (auto simp: inj_on_def)
  ultimately have "distinct (listdir fs')" by (simp add: distinct_map)
  then show ?thesis by (simp add: wf_dir_def listdir_def)
qed

lemma wf_dir_rotate: "wf_dir fs \<Longrightarrow> rotate fs src dst = Inr fs' \<Longrightarrow> wf_dir fs'"
  by (auto simp: rotate_def wf_dir_os_rename split: if_splits)

lemma rotate_total: "\<exists>fs'. rotate fs src dst = Inr fs'"
  by (simp add: rotate_def os_rename_def)

lemma read_file_renamed:
  assumes "wf_dir fs" "path_exists fs src" "src \<noteq> dst"
  shows "os_rename fs src dst =
           Inr (map (\<lambda>e. if fst e = src then (dst, snd e) else e) (filter (\<lambda>e. fst e \<noteq> dst) fs))"
    and "read_file (map (\<lambda>e. if fst e = src then (dst, snd e) else e)
           (filter (\<lambda>e. fst e \<noteq> dst) fs)) p =
         (if p = dst then read_file fs src else if p = src then None else read_file fs p)"
proof -
  show "os_rename fs src dst =
           Inr (map (\<lambda>e. if fst e = src then (dst, snd e) else e) (filter (\<lambda>e. fst e \<noteq> dst) fs))"
    using assms by (simp add: os_rename_def)
  show "read_file (map (\<lambda>e. if fst e = src then (dst, snd e) else e)
           (filter (\<lambda>e. fst e \<noteq> dst) fs)) p =
         (if p = dst then read_file fs src else if p = src then None else read_file fs p)"
    using assms(1,3) unfolding read_file_def wf_dir_def
  proof (induction fs)
    case Nil
    then show ?case by simp
  next
    case (Cons e fs)
    then show ?case
      by (auto simp: map_of_eq_None_iff image_iff)
  qed
qed

lemma path_exists_read: "path_exists fs p \<longleftrightarrow> read_file fs p \<noteq> None"
  by (simp add: path_exists_def listdir_def read_file_def map_of_eq_None_iff)

lemma is_backup_base: "\<not> is_backup h (baseFilename h)"
  by (simp add: is_backup_def Let_def)

lemma listdir_stream_write: "listdir (stream_write fs p s) = listdir fs"
  by (induction fs) (auto simp: stream_write_def listdir_def)

lemma listdir_os_open:
  "os_open fs p m = Inr fs' \<Longrightarrow> listdir fs' = listdir fs \<or> listdir fs' = listdir fs @ [p]"
  by (auto simp: os_open_def listdir_def comp_def split: if_splits intro!: map_idI)

lemma backups_reopen:
  assumes "reopen h w = Inr (h', w')"
  shows "backups h' (files w') = backups h (files w)"
    and "backupCount h' = backupCount h"
    and "baseFilename h' = baseFilename h"
proof -
  from assms have h': "h' = h \<or> h' = h\<lparr>stream := Some (baseFilename h)\<rparr>"
    by (auto simp: reopen_def Let_def split: if_splits sum.splits option.splits)
  then show "backupCount h' = backupCount h" "baseFilename h' = baseFilename h"
    by auto
  then have same: "is_backup h' = is_backup h" by (simp add: is_backup_def fun_eq_iff)
  from assms have "listdir (files w') = listdir (files w) \<or>
      listdir (files w') = listdir (files w) @ [baseFilename h]"
    by (auto simp: reopen_def Let_def listdir_stream_write
        split: if_splits sum.splits option.splits dest: listdir_os_open)
  then show "backups h' (files w') = backups h (files w)"
    by (auto simp: backups_def same is_backup_base)
qed

lemma prune_le:
  assumes "remove_each fs1 (getFilesToDelete h fs1) = Inr fs2" "0 < backupCount h"
  shows "length (backups h fs2) \<le> nat (backupCount h)"
proof -
  define result where "result = filter (is_backup h) (listdir fs1)"
  show ?thesis
  proof (cases "int (length result) < backupCount h")
    case True
    with assms(1) have "fs2 = fs1" by (simp add: getFilesToDelete_def result_def Let_def)
    with True show ?thesis by (simp add: backups_def result_def)
  next
    case False
    define k where "k = nat (int (length result) - backupCount h)"
    from False have dels: "getFilesToDelete h fs1 = take k (sort result)"
      by (simp add: getFilesToDelete_def result_def k_def Let_def)
    from listdir_remove_each [OF assms(1)] dels
    have "listdir fs2 = filter (\<lambda>n. n \<notin> set (take k (sort result))) (listdir fs1)" by simp
    then have "length (backups h fs2) \<le> length result - k"
      unfolding backups_def result_def by (simp only: prune_bound)
    also from False assms(2) have "length result - k = nat (backupCount h)"
      by (simp add: k_def)
    finally show ?thesis .
  qed
qed

lemma doRollover_keeps:
  assumes "doRollover L t h w = Some (Inr (h', w'))"
  shows "backupCount h' = backupCount h" "baseFilename h' = baseFilename h"
proof -
  from assms obtain fs1 h1 w1 r where
    re: "reopen (h\<lparr>stream := None\<rparr>) (w\<lparr>files := fs1\<rparr>) = Inr (h1, w1)"
    and h': "h' = h1\<lparr>rolloverAt := r\<rparr>"
    by (auto simp: doRollover_def Let_def split: option.splits sum.splits)
  from backups_reopen(2-3) [OF re] h'
  show "backupCount h' = backupCount h" "baseFilename h' = baseFilename h"
    by simp_all
qed

lemma doRollover_prunes:
  assumes "0 < backupCount h" "doRollover L t h w = Some (Inr (h', w'))"
  shows "length (backups h' (files w')) \<le> nat (backupCount h)"
proof -
  define h0 where "h0 = h\<lparr>stream := None\<rparr>"
  from assms(2) obtain fs2 h1 w1 r where
    ar: "archive h0 (archive_name L h0 t) (files w) = Some (Inr fs2)"
    and re: "reopen h0 (w\<lparr>files := fs2\<rparr>) = Inr (h1, w1)"
    and h': "h' = h1\<lparr>rolloverAt := r\<rparr>" and w': "w' = w1"
    by (auto simp: doRollover_def Let_def h0_def split: option.splits sum.splits)
  from ar assms(1) obtain fs1 where "remove_each fs1 (getFilesToDelete h0 fs1) = Inr fs2"
    by (auto simp: archive_def h0_def split: option.splits sum.splits)
  from prune_le [OF this] assms(1) have "length (backups h0 fs2) \<le> nat (backupCount h)"
    by (simp add: h0_def)
  moreover from backups_reopen(1) [OF re] have "backups h1 (files w1) = backups h0 fs2" by simp
  moreover have "is_backup h' = is_backup h1"
    by (simp add: h' is_backup_def fun_eq_iff)
  then have "backups h' = backups h1"
    unfolding backups_def by (intro ext) simp
  ultimately show ?thesis by (simp add: w')
qed

lemma rollovers_prune:
  assumes "0 < backupCount h" "ts \<noteq> []" "rollovers L ts h w = Some (Inr (h', w'))"
  shows "length (backups h' (files w')) \<le> nat (backupCount h)"
  using assms
proof (induction ts arbitrary: h w)
  case Nil
  then show ?case by simp
next
  case (Cons t ts)
  from Cons.prems(3) obtain h1 w1 where
    one: "doRollover L t h w = Some (Inr (h1, w1))"
    and rest: "rollovers L ts h1 w1 = Some (Inr (h', w'))"
    by (auto split: option.splits sum.splits)
  show ?case
  proof (cases "ts = []")
    case True
    with rest have "h' = h1" "w' = w1" by simp_all
    with doRollover_prunes [OF Cons.prems(1) one] show ?thesis by simp
  next
    case False
    from doRollover_keeps(1) [OF one] Cons.prems(1) have "0 < backupCount h1" by simp
    from Cons.IH [OF this False rest] doRollover_keeps(1) [OF one] show ?thesis by simp
  qed
qed

subsection \<open>What a rollover returns\<close>

lemma distinct_getFilesToDelete: "wf_dir fs \<Longrightarrow> distinct (getFilesToDelete h fs)"
  by (simp add: getFilesToDelete_def Let_def wf_dir_def listdir_def distinct_map_filter)

lemma set_getFilesToDelete: "set (getFilesToDelete h fs) \<subseteq> set (listdir fs)"
  by (auto simp: getFilesToDelete_def Let_def dest: in_set_takeD)

lemma archive_returns:
  assumes "wf_dir fs" "0 < backupCount h \<longrightarrow> \<not> path_exists fs (numbered dfn 1)"
  shows "\<exists>fs'. archive h dfn fs = Some (Inr fs')"
proof (cases "0 < backupCount h")
  case True
  with assms(2) have nr: "numbered_rotate fs (baseFilename h) dfn =
      Some (rotate fs (baseFilename h) (numbered dfn 1))"
    by (simp add: numbered_rotate_free)
  obtain fs1 where r: "rotate fs (baseFilename h) (numbered dfn 1) = Inr fs1"
    using rotate_total by blast
  from wf_dir_rotate [OF assms(1) r] have "wf_dir fs1" .
  from remove_each_total [OF distinct_getFilesToDelete [OF this] set_getFilesToDelete]
  obtain fs' where "remove_each fs1 (getFilesToDelete h fs1) = Inr fs'" by blast
  with True nr r show ?thesis by (simp add: archive_def)
next
  case False
  have "\<exists>fs1. (if path_exists fs dfn then os_remove fs dfn else Inr fs) = Inr fs1"
    by (simp add: os_remove_def)
  then obtain fs1 where a: "(if path_exists fs dfn then os_remove fs dfn else Inr fs) = Inr fs1"
    by blast
  obtain fs' where "rotate fs1 (baseFilename h) dfn = Inr fs'" using rotate_total by blast
  with False a show ?thesis by (simp add: archive_def)
qed

lemma os_open_append: "os_open fs p ''a'' = Inr (if path_exists fs p then fs else fs @ [(p, [])])"
  by (simp add: os_open_def valid_mode_def)

lemma reopen_returns:
  assumes "mode h = ''a''"
  shows "\<exists>h' w'. reopen h w = Inr (h', w') \<and> interval h' = interval h"
  using assms by (auto simp: reopen_def os_open_append Let_def split: option.splits)

lemma next_rolloverAt_returns: "0 < interval h \<Longrightarrow> \<exists>r. next_rolloverAt L h t = Some r"
  using advance_past [of "interval h" t "computeRollover L h t"]
  by (auto simp: next_rolloverAt_def)

lemma doRollover_returns:
  assumes "wf_dir (files w)"
    and "0 < backupCount h \<longrightarrow>
           \<not> path_exists (files w) (numbered (archive_name L (h\<lparr>stream := None\<rparr>) t) 1)"
    and "0 < interval h" and "mode h = ''a''"
  shows "\<exists>h' w'. doRollover L t h w = Some (Inr (h', w'))"
proof -
  define h0 where "h0 = h\<lparr>stream := None\<rparr>"
  from archive_returns [of "files w" h0 "archive_name L h0 t"] assms(1,2)
  obtain fs1 where a: "archive h0 (archive_name L h0 t) (files w) = Some (Inr fs1)"
    by (auto simp: h0_def)
  from reopen_returns [of h0 "w\<lparr>files := fs1\<rparr>"] assms(4)
  obtain h1 w1 where r: "reopen h0 (w\<lparr>files := fs1\<rparr>) = Inr (h1, w1)"
    and i: "interval h1 = interval h" by (auto simp: h0_def)
  from next_rolloverAt_returns [of h1 L t] assms(3) i
  obtain x where "next_rolloverAt L h1 t = Some x" by auto
  with a r show ?thesis by (simp add: doRollover_def Let_def h0_def)
qed

lemma free_sfn_result:
  assumes "free_sfn fs dfn 1 (numbered dfn 1) = Some y"
  shows "y = numbered dfn 1" and "\<not> path_exists fs (numbered dfn 1)"
proof -
  from free_sfn_stuck_aux [OF assms] show "\<not> path_exists fs (numbered dfn 1)" by simp
  with assms show "y = numbered dfn 1" by (simp add: free_sfn_free)
qed

lemma rotate_no_src:
  assumes "rotate fs src dst = Inr fs'" "src \<noteq> dst"
  shows "\<not> path_exists fs' src"
proof (cases "path_exists fs src")
  case True
  with assms have "fs' = map (\<lambda>e. if fst e = src then (dst, snd e) else e)
      (filter (\<lambda>e. fst e \<noteq> dst) fs)"
    by (simp add: rotate_def os_rename_def)
  with assms(2) show ?thesis by (auto simp: path_exists_def listdir_renamed)
next
  case False
  with assms show ?thesis by (simp add: rotate_def)
qed

lemma remove_each_keeps_absent:
  "remove_each fs xs = Inr fs' \<Longrightarrow> \<not> path_exists fs p \<Longrightarrow> \<not> path_exists fs' p"
  by (auto simp: path_exists_def dest: listdir_remove_each)

lemma archive_no_base:
  assumes "archive h dfn fs = Some (Inr fs')" "dfn \<noteq> baseFilename h"
    "numbered dfn 1 \<noteq> baseFilename h"
  shows "\<not> path_exists fs' (baseFilename h)"
proof (cases "0 < backupCount h")
  case True
  with assms(1) obtain sfn fs1 where
    s: "free_sfn fs dfn 1 (numbered dfn 1) = Some sfn"
    and r: "rotate fs (baseFilename h) sfn = Inr fs1"
    and d: "remove_each fs1 (getFilesToDelete h fs1) = Inr fs'"
    by (auto simp: archive_def numbered_rotate_def rotation_filename_def
        split: option.splits sum.splits)
  from free_sfn_result(1) [OF s] assms(3) have "baseFilename h \<noteq> sfn" by auto
  from rotate_no_src [OF r this] remove_each_keeps_absent [OF d] show ?thesis by blast
next
  case False
  with assms(1) obtain fs1 where r: "rotate fs1 (baseFilename h) dfn = Inr fs'"
    by (auto simp: archive_def split: sum.splits)
  from rotate_no_src [OF r] assms(2) show ?thesis by auto
qed

lemma archive_name_not_base:
  "archive_name L h t \<noteq> baseFilename h" "numbered (archive_name L h t) 1 \<noteq> baseFilename h"
  by (simp_all add: archive_name_def Let_def rotation_filename_def numbered_def)

lemma read_file_stream_write:
  "read_file (stream_write fs p s) q =
     (if q = p then map_option (\<lambda>c. c @ s) (read_file fs p) else read_file fs q)"
  by (induction fs) (auto simp: read_file_def stream_write_def)

lemma os_open_fresh:
  assumes "os_open fs p m = Inr fs'" "\<not> path_exists fs p"
  shows "fs' = fs @ [(p, [])]"
  using assms by (auto simp: os_open_def split: if_splits)

lemma read_file_fresh: "\<not> path_exists fs p \<Longrightarrow> read_file (fs @ [(p, c)]) p = Some c"
  by (simp add: read_file_def path_exists_def listdir_def map_add_def map_of_eq_None_iff [THEN iffD2]
      split: option.splits)

lemma doRollover_header:
  assumes "doRollover L t h w = Some (Inr (h', w'))" "\<not> delay h" "header h = Some txt"
  shows "read_file (files w') (baseFilename h) = Some (header_line txt)"
proof -
  define h0 where "h0 = h\<lparr>stream := None\<rparr>"
  from assms(1) obtain fs2 h1 r where
    ar: "archive h0 (archive_name L h0 t) (files w) = Some (Inr fs2)"
    and re: "reopen h0 (w\<lparr>files := fs2\<rparr>) = Inr (h1, w')"
    by (auto simp: doRollover_def Let_def h0_def split: option.splits sum.splits)
  from archive_no_base [OF ar] archive_name_not_base [of L h0 t]
  have nb: "\<not> path_exists fs2 (baseFilename h)" by (simp add: h0_def)
  from re assms(2,3) obtain fs3 where
    op: "os_open fs2 (baseFilename h) (mode h) = Inr fs3"
    and w': "files w' = stream_write fs3 (baseFilename h) (header_line txt)"
    by (auto simp: reopen_def Let_def h0_def split: sum.splits)
  from os_open_fresh [OF op nb] w' read_file_fresh [OF nb] show ?thesis
    by (simp add: read_file_stream_write)
qed

lemma read_file_os_open:
  assumes "os_open fs p m = Inr fs'"
  shows "read_file fs' p =
     Some (case read_file fs p of None \<Rightarrow> [] | Some old \<Rightarrow> if CHR ''w'' \<in> set m then [] else old)"
proof (cases "path_exists fs p")
  case False
  then have "read_file fs p = None" by (simp add: path_exists_read)
  with os_open_fresh [OF assms False] read_file_fresh [OF False] show ?thesis by simp
next
  case True
  then obtain old where old: "read_file fs p = Some old" by (auto simp: path_exists_read)
  have trunc: "read_file (map (\<lambda>e. if fst e = p then (p, []) else e) fs) p = Some []"
    using old unfolding read_file_def by (induction fs) (auto split: if_splits)
  from assms True old trunc show ?thesis
    by (auto simp: os_open_def split: if_splits)
qed

lemma os_open_again:
  assumes "os_open fs p m = Inr fs1"
  shows "os_open fs1 p ''a'' = Inr fs1"
proof -
  from read_file_os_open [OF assms] have "path_exists fs1 p" by (simp add: path_exists_read)
  then show ?thesis by (simp add: os_open_append)
qed

lemma init_header:
  assumes "init L now c w = Inr (h, w')" "\<not> c_delay c" "c_header c = Some txt"
  shows "read_file (files w') (c_filename c) =
     Some ((case read_file (files w) (c_filename c) of
              None \<Rightarrow> []
            | Some old \<Rightarrow> if c_maxBytes c \<le> 0 \<and> CHR ''w'' \<in> set (c_mode c) then [] else old)
           @ txt @ [CHR 0x0A])"
proof -
  define m1 where "m1 = (if c_maxBytes c > 0 then ''a'' else c_mode c)"
  from assms obtain fs1 where o1: "os_open (files w) (c_filename c) m1 = Inr fs1"
    by (auto simp: init_def file_handler_init_def m1_def split: sum.splits)
  from os_open_again [OF o1] have o2: "os_open fs1 (c_filename c) ''a'' = Inr fs1" .
  from assms o1 o2 have w': "files w' = stream_write fs1 (c_filename c) (header_line txt)"
    by (auto simp: init_def file_handler_init_def m1_def Let_def split: sum.splits if_splits)
  have "read_file fs1 (c_filename c) =
      Some (case read_file (files w) (c_filename c) of
              None \<Rightarrow> []
            | Some old \<Rightarrow> if c_maxBytes c \<le> 0 \<and> CHR ''w'' \<in> set (c_mode c) then [] else old)"
    using read_file_os_open [OF o1] by (auto simp: m1_def split: option.splits)
  with w' show ?thesis by (simp add: read_file_stream_write header_line_def)
qed

lemma doRollover_keeps2:
  assumes "doRollover L t h w = Some (Inr (h', w'))"
  shows "delay h' = delay h" "header h' = header h"
proof -
  from assms obtain fs1 h1 w1 r where
    re: "reopen (h\<lparr>stream := None\<rparr>) (w\<lparr>files := fs1\<rparr>) = Inr (h1, w1)"
    and h': "h' = h1\<lparr>rolloverAt := r\<rparr>"
    by (auto simp: doRollover_def Let_def split: option.splits sum.splits)
  from re have "h1 = h\<lparr>stream := None\<rparr> \<or> h1 = h\<lparr>stream := Some (baseFilename h)\<rparr>"
    by (auto simp: reopen_def Let_def split: if_splits sum.splits option.splits)
  with h' show "delay h' = delay h" "header h' = header h" by auto
qed

lemma rollovers_header:
  assumes "rollovers L ts h w = Some (Inr (h', w'))" "ts \<noteq> []" "\<not> delay h" "header h = Some txt"
  shows "read_file (files w') (baseFilename h) = Some (header_line txt)"
  using assms
proof (induction ts arbitrary: h w)
  case Nil
  then show ?case by simp
next
  case (Cons t ts)
  from Cons.prems(1) obtain h1 w1 where
    one: "doRollover L t h w = Some (Inr (h1, w1))"
    and rest: "rollovers L ts h1 w1 = Some (Inr (h', w'))"
    by (auto split: option.splits sum.splits)
  show ?case
  proof (cases "ts = []")
    case True
    with rest have "w' = w1" by simp
    with doRollover_header [OF one Cons.prems(3,4)] show ?thesis by simp
  next
    case False
    from doRollover_keeps2 [OF one] Cons.prems(3,4)
    have "\<not> delay h1" "header h1 = Some txt" by simp_all
    from Cons.IH [OF rest False this] doRollover_keeps(2) [OF one] show ?thesis by simp
  qed
qed

lemma doRollover_prints:
  assumes "doRollover L t h w = Some (Inr (h', w'))" "\<not> delay h" "header h = Some txt"
  shows "console w' = console w @ [''Hi!'']"
  using assms
  by (auto simp: doRollover_def reopen_def Let_def split: option.splits sum.splits)

lemma archive_overwrite:
  assumes "backupCount h \<le> 0"
  shows "archive h dfn fs = Some (rotate (filter (\<lambda>e. fst e \<noteq> dfn) fs) (baseFilename h) dfn)"
proof -
  have "\<not> path_exists fs dfn \<Longrightarrow> filter (\<lambda>e. fst e \<noteq> dfn) fs = fs"
    by (auto simp: path_exists_def listdir_def filter_id_conv)
  with assms show ?thesis by (simp add: archive_def os_remove_def)
qed

lemma read_file_filter:
  "read_file (filter (\<lambda>e. fst e \<noteq> d) fs) p = (if p = d then None else read_file fs p)"
  unfolding read_file_def by (induction fs) auto

lemma wf_dir_filter: "wf_dir fs \<Longrightarrow> wf_dir (filter P fs)"
  by (simp add: wf_dir_def distinct_map_filter)

lemma overwrite_result:
  assumes "backupCount h \<le> 0" "wf_dir fs" "dfn \<noteq> baseFilename h"
  shows "\<exists>fs'. archive h dfn fs = Some (Inr fs') \<and> wf_dir fs' \<and>
           read_file fs' dfn = read_file fs (baseFilename h) \<and>
           read_file fs' (baseFilename h) = None \<and>
           (\<forall>p. p \<noteq> dfn \<and> p \<noteq> baseFilename h \<longrightarrow> read_file fs' p = read_file fs p)"
proof -
  define fs1 where "fs1 = filter (\<lambda>e. fst e \<noteq> dfn) fs"
  have wf1: "wf_dir fs1" using assms(2) by (simp add: fs1_def wf_dir_filter)
  have ex: "path_exists fs1 (baseFilename h) = path_exists fs (baseFilename h)"
    using assms(3) by (simp add: path_exists_read fs1_def read_file_filter)
  show ?thesis
  proof (cases "path_exists fs (baseFilename h)")
    case True
    with ex have e1: "path_exists fs1 (baseFilename h)" by simp
    define fs' where "fs' = map (\<lambda>e. if fst e = baseFilename h then (dfn, snd e) else e)
           (filter (\<lambda>e. fst e \<noteq> dfn) fs1)"
    from read_file_renamed(1) [OF wf1 e1] assms(3) e1
    have r: "rotate fs1 (baseFilename h) dfn = Inr fs'" by (simp add: rotate_def fs'_def)
    from read_file_renamed(2) [OF wf1 e1, of dfn] assms(3)
    have rd: "\<And>p. read_file fs' p = (if p = dfn then read_file fs1 (baseFilename h)
        else if p = baseFilename h then None else read_file fs1 p)"
      by (simp add: fs'_def)
    from wf_dir_rotate [OF wf1 r] have "wf_dir fs'" .
    with r rd assms(1,3) show ?thesis
      by (simp add: archive_overwrite fs1_def [symmetric]) (simp add: fs1_def read_file_filter)
  next
    case False
    with ex have "rotate fs1 (baseFilename h) dfn = Inr fs1" by (simp add: rotate_def)
    moreover from False have "read_file fs (baseFilename h) = None"
      by (simp add: path_exists_read)
    ultimately show ?thesis using wf1 assms(1,3)
      by (simp add: archive_overwrite fs1_def [symmetric]) (simp add: fs1_def read_file_filter)
  qed
qed

lemma advance_result: 
  assumes "advance step now x = Some r" shows "now < r"
proof (rule advance.raw_induct [where P = "\<lambda>step now x r. now < r", OF _ assms])
  fix f step now x and r :: int
  assume "\<And>step now x r. f step now x = Some r \<Longrightarrow> now < r"
    and "(if x \<le> now then f step now (x + step) else Some x) = Some r"
  then show "now < r" by (auto split: if_splits)
qed

lemma dst_adjust_cases:
  "dst_adjust L h dstNow r =
     (if (when_unit h = ''MIDNIGHT'' \<or> startswith (when_unit h) ''W'') \<and> \<not> utc h \<and>
         dstNow \<noteq> isdst L r
      then (if isdst L r then r - 3600 else r + 3600) else r)"
  by (auto simp: dst_adjust_def Let_def)

subsection \<open>Backups, the oldest first, and the two checks\<close>

lemma numbered_ext_made: "numbered_ext (ts @ ''.001'')"
  by (simp add: numbered_ext_def is_digit_def)

lemma is_backup_made: "is_backup h (numbered (archive_name L h t) 1)"
  by (simp add: is_backup_def Let_def numbered_1 archive_name_def rotation_filename_def
      numbered_ext_made)

lemma sorted_take_le_drop:
  assumes "sorted zs" "x \<in> set (take k zs)" "y \<in> set (drop k zs)"
  shows "x \<le> y"
proof -
  from assms(1) have "sorted (take k zs @ drop k zs)" by simp
  with assms(2,3) show ?thesis unfolding sorted_append by blast
qed

lemma prune_oldest:
  assumes "remove_each fs1 (getFilesToDelete h fs1) = Inr fs2"
  shows "set (backups h fs2) \<subseteq> set (backups h fs1)"
    and "\<lbrakk>d \<in> set (backups h fs1); d \<notin> set (backups h fs2); k \<in> set (backups h fs2)\<rbrakk> \<Longrightarrow> d \<le> k"
proof -
  define result where "result = filter (is_backup h) (listdir fs1)"
  define dels where "dels = getFilesToDelete h fs1"
  from listdir_remove_each [OF assms]
  have l2: "listdir fs2 = filter (\<lambda>n. n \<notin> set dels) (listdir fs1)" by (simp add: dels_def)
  then have b2: "set (backups h fs2) = set result - set dels"
    by (auto simp: backups_def result_def)
  then show "set (backups h fs2) \<subseteq> set (backups h fs1)"
    by (auto simp: backups_def result_def)
  show "d \<le> k" if d: "d \<in> set (backups h fs1)" and nd: "d \<notin> set (backups h fs2)"
    and k: "k \<in> set (backups h fs2)"
  proof -
    from d nd b2 have dd: "d \<in> set dels" by (auto simp: backups_def result_def)
    then have ne: "dels \<noteq> []" by auto
    then obtain n where dels: "dels = take n (sort result)"
      by (auto simp: dels_def getFilesToDelete_def Let_def result_def split: if_splits)
    from k b2 have "k \<in> set (sort result)" "k \<notin> set (take n (sort result))"
      by (auto simp: dels)
    then have "k \<in> set (drop n (sort result))"
      by (metis Un_iff append_take_drop_id set_append)
    with dd dels show ?thesis by (auto intro: sorted_take_le_drop [of "sort result"])
  qed
qed

lemma doRollover_oldest:
  assumes "0 < backupCount h" "doRollover L t h w = Some (Inr (h', w'))"
  shows "\<exists>fs1. numbered_rotate (files w) (baseFilename h) (archive_name L (h\<lparr>stream := None\<rparr>) t) =
            Some (Inr fs1) \<and>
          set (backups h' (files w')) \<subseteq> set (backups h fs1) \<and>
          (\<forall>d \<in> set (backups h fs1) - set (backups h' (files w')).
             \<forall>k \<in> set (backups h' (files w')). d \<le> k)"
proof -
  define h0 where "h0 = h\<lparr>stream := None\<rparr>"
  from assms(2) obtain fs2 h1 w1 r where
    ar: "archive h0 (archive_name L h0 t) (files w) = Some (Inr fs2)"
    and re: "reopen h0 (w\<lparr>files := fs2\<rparr>) = Inr (h1, w1)"
    and h': "h' = h1\<lparr>rolloverAt := r\<rparr>" and w': "w' = w1"
    by (auto simp: doRollover_def Let_def h0_def split: option.splits sum.splits)
  from ar assms(1) obtain fs1 where
    nr: "numbered_rotate (files w) (baseFilename h) (archive_name L h0 t) = Some (Inr fs1)"
    and del: "remove_each fs1 (getFilesToDelete h0 fs1) = Inr fs2"
    by (auto simp: archive_def h0_def split: option.splits sum.splits)
  have "is_backup h0 = is_backup h" by (simp add: h0_def is_backup_def fun_eq_iff)
  then have same0: "backups h0 = backups h"
    unfolding backups_def by (intro ext) simp
  have "is_backup h' = is_backup h1" by (simp add: h' is_backup_def fun_eq_iff)
  then have "backups h' = backups h1" unfolding backups_def by (intro ext) simp
  with backups_reopen(1) [OF re] have fin: "backups h' (files w') = backups h fs2"
    by (simp add: w' same0)
  from prune_oldest [OF del] have
    "set (backups h fs2) \<subseteq> set (backups h fs1)"
    "\<forall>d \<in> set (backups h fs1) - set (backups h fs2). \<forall>k \<in> set (backups h fs2). d \<le> k"
    by (auto simp: same0)
  with nr fin show ?thesis by (auto simp: h0_def)
qed

lemma doRollover_stuck:
  assumes "0 < backupCount h"
    and "path_exists (files w) (numbered (archive_name L (h\<lparr>stream := None\<rparr>) t) 1)"
  shows "doRollover L t h w = None"
  using assms numbered_rotate_stuck [OF assms(2), of "baseFilename h"]
  by (simp add: doRollover_def archive_def)

lemma ensure_stream_append:
  assumes "mode h = ''a''"
  shows "\<exists>h1 w1. ensure_stream h w = Inr (h1, w1) \<and> maxBytes h1 = maxBytes h \<and>
           rolloverAt h1 = rolloverAt h \<and> currentSegmentSize h1 w1 = currentSegmentSize h w"
proof (cases "stream h")
  case None
  have "read_file (files w @ [(baseFilename h, [])]) (baseFilename h) = Some []"
    if "\<not> path_exists (files w) (baseFilename h)"
    using read_file_fresh [OF that] .
  moreover have "read_file (files w) (baseFilename h) = None"
    if "\<not> path_exists (files w) (baseFilename h)"
    using that by (simp add: path_exists_read)
  ultimately show ?thesis using None assms
    by (auto simp: ensure_stream_def os_open_append currentSegmentSize_def)
next
  case (Some s)
  then show ?thesis by (simp add: ensure_stream_def)
qed

lemma shouldRollover_value:
  assumes "mode h = ''a''"
  shows "\<exists>h' w'. shouldRollover size_check (time_check now) h w record =
     Inr ((0 < maxBytes h \<and> maxBytes h \<le> currentSegmentSize h w + int (length record) + 1) \<or>
          rolloverAt h \<le> now, h', w')"
proof -
  from ensure_stream_append [OF assms, of w] obtain h1 w1 where
    e: "ensure_stream h w = Inr (h1, w1)" "maxBytes h1 = maxBytes h"
    "rolloverAt h1 = rolloverAt h" "currentSegmentSize h1 w1 = currentSegmentSize h w"
    by blast
  then show ?thesis
    by (simp add: shouldRollover_def size_check_def time_check_def Let_def)
qed

subsection \<open>The examples, evaluated\<close>

lemma daily_archive_name:
  "archive_name plain_lib (daily_handler\<lparr>stream := None\<rparr>) 172800 = ''app.log.1970-01-02''"
  by (simp add: archive_name_def plain_lib_def daily_handler_def day_string_def
      rotation_filename_def)

lemma daily_is_backup:
  "is_backup (daily_handler\<lparr>stream := None\<rparr>) ''app.log.1970-01-02.001''"
  "is_backup (daily_handler\<lparr>stream := None\<rparr>) ''app.log.1970-01-01.001''"
  by (simp_all add: is_backup_def daily_handler_def numbered_ext_def is_digit_def)

lemma second_day_free:
  "\<not> path_exists (files second_day) (numbered ''app.log.1970-01-02'' 1)"
  by (simp add: numbered_1 path_exists_def listdir_def second_day_def)

lemma second_day_wf: "wf_dir (files second_day)"
  by (simp add: wf_dir_def second_day_def)

lemma second_day_archive:
  "archive (daily_handler\<lparr>stream := None\<rparr>) ''app.log.1970-01-02'' (files second_day) =
     Some (Inr [(''app.log.1970-01-02.001'', ''second day'')])"
proof -
  have rot: "rotate (files second_day) (baseFilename daily_handler)
        (numbered ''app.log.1970-01-02'' 1) =
      Inr [(''app.log.1970-01-02.001'', ''second day''),
           (''app.log.1970-01-01.001'', ''first day'')]"
    by (simp add: numbered_1 rotate_def os_rename_def path_exists_def listdir_def second_day_def
        daily_handler_def)
  have del: "getFilesToDelete (daily_handler\<lparr>stream := None\<rparr>)
      [(''app.log.1970-01-02.001'', ''second day''),
       (''app.log.1970-01-01.001'', ''first day'')] =
      [''app.log.1970-01-01.001'']"
    by (simp add: getFilesToDelete_def Let_def listdir_def daily_is_backup)
       (simp add: daily_handler_def)
  have pos: "0 < backupCount daily_handler" by (simp add: daily_handler_def)
  show ?thesis
    by (simp add: archive_def pos numbered_rotate_free [OF second_day_free] rot del os_remove_def
        path_exists_def listdir_def)
qed

lemma second_day_reopen:
  "reopen (daily_handler\<lparr>stream := None\<rparr>)
     (second_day\<lparr>files := [(''app.log.1970-01-02.001'', ''second day'')]\<rparr>) =
   Inr (daily_handler\<lparr>stream := Some ''app.log''\<rparr>,
        \<lparr>files = [(''app.log.1970-01-02.001'', ''second day''),
                  (''app.log'', header_line ''HDR'')],
         console = [''Hi!'']\<rparr>)"
  by (simp add: reopen_def daily_handler_def second_day_def os_open_append path_exists_def
      listdir_def stream_write_def)

lemma daily_next:
  "next_rolloverAt plain_lib (daily_handler\<lparr>stream := Some ''app.log''\<rparr>) 172800 = Some 259200"
  by (simp add: next_rolloverAt_def plain_lib_def daily_handler_def advance.simps dst_adjust_def)

lemma second_day_doRollover:
  "doRollover plain_lib 172800 daily_handler second_day =
   Some (Inr (daily_handler\<lparr>stream := Some ''app.log'', rolloverAt := 259200\<rparr>,
     \<lparr>files = [(''app.log.1970-01-02.001'', ''second day''),
               (''app.log'', header_line ''HDR'')],
      console = [''Hi!'']\<rparr>))"
  by (simp add: doRollover_def daily_archive_name second_day_archive second_day_reopen daily_next)


lemma second_day_rollovers:
  "rollovers plain_lib [172800] daily_handler second_day =
   Some (Inr (daily_handler\<lparr>stream := Some ''app.log'', rolloverAt := 259200\<rparr>,
     \<lparr>files = [(''app.log.1970-01-02.001'', ''second day''),
               (''app.log'', header_line ''HDR'')],
      console = [''Hi!'']\<rparr>))"
  by (simp add: second_day_doRollover)

lemma daily_next_plain:
  "next_rolloverAt plain_lib daily_handler 172800 = Some 259200"
  by (simp add: next_rolloverAt_def plain_lib_def daily_handler_def advance.simps dst_adjust_def)

lemma spring_next:
  "next_rolloverAt spring_lib midnight_handler 84600 = Some 82800"
  by (simp add: next_rolloverAt_def spring_lib_def plain_lib_def midnight_handler_def
      daily_handler_def advance.simps dst_adjust_def startswith_def)

lemma autumn_next:
  "next_rolloverAt autumn_lib midnight_handler 86400 = Some 172800"
  by (simp add: next_rolloverAt_def autumn_lib_def plain_lib_def midnight_handler_def
      daily_handler_def advance.simps dst_adjust_def startswith_def)

lemma upper_d: "upper ''d'' = ''D''"
  by (simp add: upper_def upper_char_def)

lemma daily_unit: "timed_unit ''D'' = Inr (86400, ''%Y-%m-%d'')"
  by (simp add: timed_unit_def)

lemma daily_init:
  "init plain_lib 0 daily_config empty_dir =
     Inr (daily_handler\<lparr>rolloverAt := 86400\<rparr>,
          \<lparr>files = [(''app.log'', header_line ''HDR'')], console = []\<rparr>)"
  by (simp add: init_def file_handler_init_def os_open_append path_exists_def listdir_def
      daily_config_def empty_dir_def upper_d daily_unit daily_handler_def plain_lib_def stream_write_def)

lemma negative_init:
  "init plain_lib 0 negative_config empty_dir =
     Inr (daily_handler\<lparr>maxBytes := - 1, backupCount := - 1, interval := - 604800,
            header := None, rolloverAt := - 604800\<rparr>,
          \<lparr>files = [(''app.log'', [])], console = []\<rparr>)"
  by (simp add: init_def file_handler_init_def os_open_append path_exists_def listdir_def
      negative_config_def daily_config_def empty_dir_def upper_d daily_unit daily_handler_def plain_lib_def)

lemma doRollover_steps:
  assumes "archive (h\<lparr>stream := None\<rparr>) (archive_name L (h\<lparr>stream := None\<rparr>) t) (files w) =
      Some (Inr fs1)"
    and "reopen (h\<lparr>stream := None\<rparr>) (w\<lparr>files := fs1\<rparr>) = Inr (h1, w1)"
    and "next_rolloverAt L h1 t = Some r"
  shows "doRollover L t h w = Some (Inr (h1\<lparr>rolloverAt := r\<rparr>, w1))"
  using assms by (simp add: doRollover_def Let_def)

lemma overwrite_first:
  "doRollover plain_lib 86400 overwrite_handler first_day =
     Some (Inr (overwrite_handler\<lparr>rolloverAt := 172800\<rparr>,
       \<lparr>files = [(''app.log.1970-01-01'', ''first day''), (''app.log'', [])], console = []\<rparr>))"
proof -
  have n: "archive_name plain_lib (overwrite_handler\<lparr>stream := None\<rparr>) 86400 =
      ''app.log.1970-01-01''"
    by (simp add: archive_name_def plain_lib_def overwrite_handler_def daily_handler_def
        day_string_def rotation_filename_def)
  have a: "archive (overwrite_handler\<lparr>stream := None\<rparr>)
      (archive_name plain_lib (overwrite_handler\<lparr>stream := None\<rparr>) 86400) (files first_day) =
      Some (Inr [(''app.log.1970-01-01'', ''first day'')])"
    unfolding n
    by (simp add: archive_def rotate_def os_rename_def os_remove_def path_exists_def
        listdir_def overwrite_handler_def daily_handler_def first_day_def)
  have r: "reopen (overwrite_handler\<lparr>stream := None\<rparr>)
      (first_day\<lparr>files := [(''app.log.1970-01-01'', ''first day'')]\<rparr>) =
      Inr (overwrite_handler,
        \<lparr>files = [(''app.log.1970-01-01'', ''first day''), (''app.log'', [])], console = []\<rparr>)"
    by (simp add: reopen_def os_open_append path_exists_def listdir_def overwrite_handler_def
        daily_handler_def first_day_def)
  have x: "next_rolloverAt plain_lib overwrite_handler 86400 = Some 172800"
    by (simp add: next_rolloverAt_def plain_lib_def overwrite_handler_def daily_handler_def
        dst_adjust_def advance.simps)
  from doRollover_steps [OF a r x] show ?thesis .
qed

lemma overwrite_second:
  "doRollover plain_lib 172800 (overwrite_handler\<lparr>rolloverAt := 172800\<rparr>)
       \<lparr>files = [(''app.log.1970-01-01'', ''first day''), (''app.log'', [])], console = []\<rparr> =
     Some (Inr (overwrite_handler\<lparr>rolloverAt := 259200\<rparr>,
       \<lparr>files = [(''app.log.1970-01-01'', ''first day''), (''app.log.1970-01-02'', []),
                 (''app.log'', [])], console = []\<rparr>))"
proof -
  define h where "h = overwrite_handler\<lparr>rolloverAt := 172800\<rparr>"
  define w where "w = \<lparr>files = [(''app.log.1970-01-01'', ''first day''), (''app.log'', [])],
      console = ([] :: string list)\<rparr>"
  have n: "archive_name plain_lib (h\<lparr>stream := None\<rparr>) 172800 = ''app.log.1970-01-02''"
    by (simp add: h_def archive_name_def plain_lib_def overwrite_handler_def daily_handler_def
        day_string_def rotation_filename_def)
  have a: "archive (h\<lparr>stream := None\<rparr>) (archive_name plain_lib (h\<lparr>stream := None\<rparr>) 172800)
      (files w) = Some (Inr [(''app.log.1970-01-01'', ''first day''), (''app.log.1970-01-02'', [])])"
    unfolding n
    by (simp add: h_def w_def archive_def rotate_def os_rename_def os_remove_def path_exists_def
        listdir_def overwrite_handler_def daily_handler_def)
  have r: "reopen (h\<lparr>stream := None\<rparr>)
      (w\<lparr>files := [(''app.log.1970-01-01'', ''first day''), (''app.log.1970-01-02'', [])]\<rparr>) =
      Inr (h, \<lparr>files = [(''app.log.1970-01-01'', ''first day''), (''app.log.1970-01-02'', []),
                 (''app.log'', [])], console = []\<rparr>)"
    by (simp add: h_def w_def reopen_def os_open_append path_exists_def listdir_def
        overwrite_handler_def daily_handler_def)
  have x: "next_rolloverAt plain_lib h 172800 = Some 259200"
    by (simp add: h_def next_rolloverAt_def plain_lib_def overwrite_handler_def daily_handler_def
        dst_adjust_def advance.simps)
  from doRollover_steps [OF a r x] show ?thesis by (simp add: h_def w_def)
qed

lemma overwrite_twice:
  "rollovers plain_lib [86400, 172800] overwrite_handler first_day =
     Some (Inr (overwrite_handler\<lparr>rolloverAt := 259200\<rparr>,
       \<lparr>files = [(''app.log.1970-01-01'', ''first day''), (''app.log.1970-01-02'', []),
                 (''app.log'', [])], console = []\<rparr>))"
  by (simp add: overwrite_first overwrite_second)

lemma spring_doRollover:
  "doRollover spring_lib 84600 midnight_handler first_day =
     Some (Inr (midnight_handler\<lparr>rolloverAt := 82800\<rparr>,
       \<lparr>files = [(''app.log.1970-01-01.001'', ''first day''), (''app.log'', header_line ''HDR'')],
        console = [''Hi!'']\<rparr>))"
proof -
  have n: "archive_name spring_lib (midnight_handler\<lparr>stream := None\<rparr>) 84600 =
      ''app.log.1970-01-01''"
    by (simp add: archive_name_def spring_lib_def plain_lib_def midnight_handler_def
        daily_handler_def day_string_def rotation_filename_def)
  have free: "\<not> path_exists (files first_day) (numbered ''app.log.1970-01-01'' 1)"
    by (simp add: numbered_1 path_exists_def listdir_def first_day_def)
  have rot: "rotate (files first_day) (baseFilename midnight_handler)
      (numbered ''app.log.1970-01-01'' 1) = Inr [(''app.log.1970-01-01.001'', ''first day'')]"
    by (simp add: numbered_1 rotate_def os_rename_def path_exists_def listdir_def first_day_def
        midnight_handler_def daily_handler_def)
  have bk: "is_backup (midnight_handler\<lparr>stream := None\<rparr>) ''app.log.1970-01-01.001''"
    by (simp add: is_backup_def midnight_handler_def daily_handler_def numbered_ext_def
        is_digit_def)
  have del: "getFilesToDelete (midnight_handler\<lparr>stream := None\<rparr>)
      [(''app.log.1970-01-01.001'', ''first day'')] = []"
    by (simp add: getFilesToDelete_def Let_def listdir_def bk)
       (simp add: midnight_handler_def daily_handler_def)
  have pos: "0 < backupCount midnight_handler"
    by (simp add: midnight_handler_def daily_handler_def)
  have a: "archive (midnight_handler\<lparr>stream := None\<rparr>)
      (archive_name spring_lib (midnight_handler\<lparr>stream := None\<rparr>) 84600) (files first_day) =
      Some (Inr [(''app.log.1970-01-01.001'', ''first day'')])"
    unfolding n
    by (simp add: archive_def pos numbered_rotate_free [OF free] rot del)
  have r: "reopen (midnight_handler\<lparr>stream := None\<rparr>)
      (first_day\<lparr>files := [(''app.log.1970-01-01.001'', ''first day'')]\<rparr>) =
      Inr (midnight_handler,
        \<lparr>files = [(''app.log.1970-01-01.001'', ''first day''), (''app.log'', header_line ''HDR'')],
         console = [''Hi!'']\<rparr>)"
    by (simp add: reopen_def os_open_append path_exists_def listdir_def stream_write_def
        midnight_handler_def daily_handler_def first_day_def)
  from doRollover_steps [OF a r spring_next] show ?thesis .
qed

lemma taken_name_stuck: "doRollover plain_lib 172800 daily_handler taken_name = None"
proof -
  have "0 < backupCount daily_handler" by (simp add: daily_handler_def)
  moreover have "path_exists (files taken_name)
      (numbered (archive_name plain_lib (daily_handler\<lparr>stream := None\<rparr>) 172800) 1)"
    by (simp add: daily_archive_name numbered_1 path_exists_def listdir_def taken_name_def)
  ultimately show ?thesis by (rule doRollover_stuck)
qed

lemma second_day_backups:
  "backups daily_handler
     [(''app.log.1970-01-02.001'', ''second day''), (''app.log.1970-01-01.001'', ''first day'')] =
     [''app.log.1970-01-02.001'', ''app.log.1970-01-01.001'']"
  "backups (daily_handler\<lparr>stream := Some ''app.log'', rolloverAt := 259200\<rparr>)
     [(''app.log.1970-01-02.001'', ''second day''), (''app.log'', header_line ''HDR'')] =
     [''app.log.1970-01-02.001'']"
  by (simp_all add: backups_def listdir_def is_backup_def daily_handler_def numbered_ext_def
      is_digit_def)

lemma second_day_numbered_rotate:
  "numbered_rotate (files second_day) (baseFilename daily_handler)
     (archive_name plain_lib (daily_handler\<lparr>stream := None\<rparr>) 172800) =
   Some (Inr [(''app.log.1970-01-02.001'', ''second day''),
              (''app.log.1970-01-01.001'', ''first day'')])"
proof -
  have "rotate (files second_day) (baseFilename daily_handler) (numbered ''app.log.1970-01-02'' 1) =
      Inr [(''app.log.1970-01-02.001'', ''second day''),
           (''app.log.1970-01-01.001'', ''first day'')]"
    by (simp add: numbered_1 rotate_def os_rename_def path_exists_def listdir_def second_day_def
        daily_handler_def)
  with numbered_rotate_free [OF second_day_free, of "baseFilename daily_handler"]
  show ?thesis unfolding daily_archive_name by simp
qed

lemma quiet_check:
  "shouldRollover size_check (time_check 100) daily_handler second_day ''hello'' =
     Inr (False, daily_handler, second_day)"
  by (simp add: shouldRollover_def size_check_def time_check_def ensure_stream_def
      currentSegmentSize_def read_file_def daily_handler_def second_day_def)

lemma full_check:
  "shouldRollover size_check (time_check 100) daily_handler second_day (replicate 39 (CHR ''x'')) =
     Inr (True, daily_handler, second_day)"
  by (simp add: shouldRollover_def size_check_def time_check_def ensure_stream_def
      currentSegmentSize_def read_file_def daily_handler_def second_day_def)

lemma disabled_check:
  "shouldRollover size_check (time_check 100) (daily_handler\<lparr>maxBytes := 0\<rparr>) second_day
     (replicate 39 (CHR ''x'')) = Inr (False, daily_handler\<lparr>maxBytes := 0\<rparr>, second_day)"
  by (simp add: shouldRollover_def size_check_def time_check_def ensure_stream_def
      currentSegmentSize_def read_file_def daily_handler_def second_day_def)

lemma second_day_size: "currentSegmentSize daily_handler second_day = 10"
  "currentSegmentSize (daily_handler\<lparr>maxBytes := 0\<rparr>) second_day = 10"
  by (simp_all add: currentSegmentSize_def read_file_def daily_handler_def second_day_def)

lemma deferred_doRollover:
  "doRollover plain_lib 172800 deferred_handler second_day =
     Some (Inr (deferred_handler\<lparr>stream := None, rolloverAt := 259200\<rparr>,
       \<lparr>files = [(''app.log.1970-01-02.001'', ''second day'')], console = []\<rparr>))"
proof -
  define h0 where "h0 = deferred_handler\<lparr>stream := None\<rparr>"
  have n: "archive_name plain_lib h0 172800 = ''app.log.1970-01-02''"
    by (simp add: h0_def archive_name_def plain_lib_def deferred_handler_def daily_handler_def
        day_string_def rotation_filename_def)
  have rot: "rotate (files second_day) (baseFilename h0) (numbered ''app.log.1970-01-02'' 1) =
      Inr [(''app.log.1970-01-02.001'', ''second day''),
           (''app.log.1970-01-01.001'', ''first day'')]"
    by (simp add: h0_def numbered_1 rotate_def os_rename_def path_exists_def listdir_def
        second_day_def deferred_handler_def daily_handler_def)
  have del: "getFilesToDelete h0
      [(''app.log.1970-01-02.001'', ''second day''),
       (''app.log.1970-01-01.001'', ''first day'')] = [''app.log.1970-01-01.001'']"
    by (simp add: h0_def getFilesToDelete_def Let_def listdir_def is_backup_def
        deferred_handler_def daily_handler_def numbered_ext_def is_digit_def)
  have pos: "0 < backupCount h0"
    by (simp add: h0_def deferred_handler_def daily_handler_def)
  have a: "archive h0 (archive_name plain_lib h0 172800) (files second_day) =
      Some (Inr [(''app.log.1970-01-02.001'', ''second day'')])"
    unfolding n
    by (simp add: archive_def pos numbered_rotate_free [OF second_day_free] rot del os_remove_def
        path_exists_def listdir_def)
  have r: "reopen h0 (second_day\<lparr>files := [(''app.log.1970-01-02.001'', ''second day'')]\<rparr>) =
      Inr (h0, \<lparr>files = [(''app.log.1970-01-02.001'', ''second day'')], console = []\<rparr>)"
    by (simp add: h0_def reopen_def deferred_handler_def second_day_def)
  have x: "next_rolloverAt plain_lib h0 172800 = Some 259200"
    by (simp add: h0_def next_rolloverAt_def plain_lib_def deferred_handler_def daily_handler_def
        dst_adjust_def advance.simps)
  from doRollover_steps [of deferred_handler plain_lib 172800 second_day, folded h0_def, OF a r x]
  show ?thesis by (simp add: h0_def)
qed

lemma deferred_emit:
  "file_emit (deferred_handler\<lparr>stream := None, rolloverAt := 259200\<rparr>)
     \<lparr>files = [(''app.log.1970-01-02.001'', ''second day'')], console = []\<rparr> ''record'' =
   Inr (deferred_handler\<lparr>stream := Some ''app.log'', rolloverAt := 259200\<rparr>,
        \<lparr>files = [(''app.log.1970-01-02.001'', ''second day''),
                  (''app.log'', ''record'' @ [CHR 0x0A])], console = []\<rparr>)"
  by (simp add: file_emit_def ensure_stream_def os_open_append path_exists_def listdir_def
      stream_write_def deferred_handler_def daily_handler_def)

section \<open>The claims\<close>

text \<open>
  C1. The claim is what the search is written for, and the code misses it:
  \<open>rotation_number\<close> is set to 1 on line 73 and never incremented, so the loop of
  lines 74 and 75 tests the name \<open>dfn.001\<close> again and again. In a directory where
  that name is taken and \<open>dfn.002\<close> is free, the rollover never returns.
\<close>

theorem free_name_search_diverges:
  "path_exists (files taken_name) ''app.log.1970-01-02.001'' \<and>
   \<not> path_exists (files taken_name) ''app.log.1970-01-02.002'' \<and>
   doRollover plain_lib 172800 daily_handler taken_name = None"
  by (simp add: taken_name_stuck) (simp add: path_exists_def listdir_def taken_name_def)

text \<open>
  C2. Spec-modelled pruning. For a positive retention count: after every run of
  one or more rollovers that returns, from any handler and any directory, the
  backups left are at most as many as the retention count; every name a rollover
  gives to an archive is the name of a backup, so the archives the handler makes
  are among the files counted; and the backups a rollover deletes are the oldest,
  each of them sorting no later than each backup it keeps.
\<close>

theorem retention_bound:
  assumes "0 < backupCount h"
  shows "(ts \<noteq> [] \<and> rollovers L ts h w = Some (Inr (hn, wn)) \<longrightarrow>
            length (backups hn (files wn)) \<le> nat (backupCount h)) \<and>
         is_backup h (numbered (archive_name L h t) 1) \<and>
         (doRollover L t h w = Some (Inr (h1, w1)) \<longrightarrow>
            (\<exists>fs1. numbered_rotate (files w) (baseFilename h)
                     (archive_name L (h\<lparr>stream := None\<rparr>) t) = Some (Inr fs1) \<and>
               set (backups h1 (files w1)) \<subseteq> set (backups h fs1) \<and>
               (\<forall>d \<in> set (backups h fs1) - set (backups h1 (files w1)).
                  \<forall>k \<in> set (backups h1 (files w1)). d \<le> k)))"
proof (intro conjI impI)
  assume "ts \<noteq> [] \<and> rollovers L ts h w = Some (Inr (hn, wn))"
  with assms show "length (backups hn (files wn)) \<le> nat (backupCount h)"
    by (blast intro: rollovers_prune)
next
  show "is_backup h (numbered (archive_name L h t) 1)" by (rule is_backup_made)
next
  assume "doRollover L t h w = Some (Inr (h1, w1))"
  with assms show "\<exists>fs1. numbered_rotate (files w) (baseFilename h)
                     (archive_name L (h\<lparr>stream := None\<rparr>) t) = Some (Inr fs1) \<and>
               set (backups h1 (files w1)) \<subseteq> set (backups h fs1) \<and>
               (\<forall>d \<in> set (backups h fs1) - set (backups h1 (files w1)).
                  \<forall>k \<in> set (backups h1 (files w1)). d \<le> k)"
    by (rule doRollover_oldest)
qed

theorem retention_bound_witness:
  "0 < backupCount daily_handler \<and> [172800] \<noteq> ([] :: int list) \<and>
   rollovers plain_lib [172800] daily_handler second_day =
     Some (Inr (daily_handler\<lparr>stream := Some ''app.log'', rolloverAt := 259200\<rparr>,
       \<lparr>files = [(''app.log.1970-01-02.001'', ''second day''),
                 (''app.log'', header_line ''HDR'')],
        console = [''Hi!'']\<rparr>)) \<and>
   doRollover plain_lib 172800 daily_handler second_day =
     Some (Inr (daily_handler\<lparr>stream := Some ''app.log'', rolloverAt := 259200\<rparr>,
       \<lparr>files = [(''app.log.1970-01-02.001'', ''second day''),
                 (''app.log'', header_line ''HDR'')],
        console = [''Hi!'']\<rparr>)) \<and>
   length (backups (daily_handler\<lparr>stream := Some ''app.log'', rolloverAt := 259200\<rparr>)
     [(''app.log.1970-01-02.001'', ''second day''), (''app.log'', header_line ''HDR'')])
     \<le> nat (backupCount daily_handler) \<and>
   is_backup daily_handler (numbered (archive_name plain_lib daily_handler 172800) 1) \<and>
   backups daily_handler
     [(''app.log.1970-01-02.001'', ''second day''), (''app.log.1970-01-01.001'', ''first day'')] =
     [''app.log.1970-01-02.001'', ''app.log.1970-01-01.001''] \<and>
   backups (daily_handler\<lparr>stream := Some ''app.log'', rolloverAt := 259200\<rparr>)
     [(''app.log.1970-01-02.001'', ''second day''), (''app.log'', header_line ''HDR'')] =
     [''app.log.1970-01-02.001''] \<and>
   ''app.log.1970-01-01.001'' \<le> ''app.log.1970-01-02.001''"
proof -
  define hn where "hn = daily_handler\<lparr>stream := Some ''app.log'', rolloverAt := 259200\<rparr>"
  define wn where "wn = \<lparr>files = [(''app.log.1970-01-02.001'', ''second day''),
      (''app.log'', header_line ''HDR'')], console = [''Hi!'']\<rparr>"
  have p: "0 < backupCount daily_handler" by (simp add: daily_handler_def)
  have r: "rollovers plain_lib [172800] daily_handler second_day = Some (Inr (hn, wn))"
    using second_day_rollovers by (simp add: hn_def wn_def)
  have d: "doRollover plain_lib 172800 daily_handler second_day = Some (Inr (hn, wn))"
    using second_day_doRollover by (simp add: hn_def wn_def)
  note rb = retention_bound [OF p, of "[172800]" plain_lib second_day hn wn 172800 hn wn]
  from rb r have bound: "length (backups hn (files wn)) \<le> nat (backupCount daily_handler)"
    by simp
  from rb have made: "is_backup daily_handler (numbered (archive_name plain_lib daily_handler 172800) 1)"
    by simp
  from rb d obtain fs1 where
    f: "numbered_rotate (files second_day) (baseFilename daily_handler)
          (archive_name plain_lib (daily_handler\<lparr>stream := None\<rparr>) 172800) = Some (Inr fs1)"
    and old: "\<forall>d \<in> set (backups daily_handler fs1) - set (backups hn (files wn)).
                  \<forall>k \<in> set (backups hn (files wn)). d \<le> k"
    by auto
  from f have fs1: "fs1 = [(''app.log.1970-01-02.001'', ''second day''),
      (''app.log.1970-01-01.001'', ''first day'')]"
    by (simp add: second_day_numbered_rotate)
  have b1: "backups daily_handler fs1 = [''app.log.1970-01-02.001'', ''app.log.1970-01-01.001'']"
    by (simp add: fs1 second_day_backups)
  have b2: "backups hn (files wn) = [''app.log.1970-01-02.001'']"
    by (simp add: hn_def wn_def second_day_backups)
  from old have le: "''app.log.1970-01-01.001'' \<le> ''app.log.1970-01-02.001''"
    unfolding b1 b2 by simp
  from p r d bound made b1 b2 le show ?thesis
    unfolding hn_def wn_def fs1 by simp
qed

text \<open>
  C3 (amended). For a handler in mode \<^verbatim>\<open>a\<close>, as the constructor leaves it,
  \<open>shouldRollover\<close> returns, and it returns true exactly when the size threshold is
  positive and the size of the segment plus the size of the pending record, line
  terminator included, is at least the threshold, or the current time has reached
  \<open>rolloverAt\<close>. The two conditions are combined by \<^verbatim>\<open>or\<close>, each alone suffices, and a
  threshold of 0 disables the first.
\<close>

theorem shouldRollover_either_trigger:
  assumes "mode h = ''a''"
  shows "\<exists>h' w'. shouldRollover size_check (time_check now) h w record =
     Inr ((0 < maxBytes h \<and> maxBytes h \<le> currentSegmentSize h w + int (length record) + 1) \<or>
          rolloverAt h \<le> now, h', w')"
  using assms by (rule shouldRollover_value)

theorem shouldRollover_either_trigger_witness:
  "mode daily_handler = ''a'' \<and>
   shouldRollover size_check (time_check 100) daily_handler second_day ''hello'' =
     Inr (False, daily_handler, second_day) \<and>
   \<not> ((0 < maxBytes daily_handler \<and>
        maxBytes daily_handler \<le> currentSegmentSize daily_handler second_day + int (length ''hello'') + 1) \<or>
       rolloverAt daily_handler \<le> 100)"
proof -
  have m: "mode daily_handler = ''a''" by (simp add: daily_handler_def)
  from shouldRollover_either_trigger [OF m, of 100 second_day "''hello''"] quiet_check m
  show ?thesis by simp
qed

text \<open>
  C3 as stated fails in both directions. With a size threshold of 0, a segment of
  10 bytes and a record of 40 bytes the sum exceeds the threshold, yet the check is
  false: 0 disables the size trigger. With a threshold of 50 the same sum is 50,
  which does not exceed the threshold, yet the check is true. The time is not due
  in either case.
\<close>

theorem shouldRollover_threshold_cases:
  "map_sum id fst
     (shouldRollover size_check (time_check 100) (daily_handler\<lparr>maxBytes := 0\<rparr>) second_day
        (replicate 39 (CHR ''x''))) = Inr False \<and>
   currentSegmentSize (daily_handler\<lparr>maxBytes := 0\<rparr>) second_day + 40 >
     maxBytes (daily_handler\<lparr>maxBytes := 0\<rparr>) \<and>
   map_sum id fst
     (shouldRollover size_check (time_check 100) daily_handler second_day
        (replicate 39 (CHR ''x''))) = Inr True \<and>
   \<not> currentSegmentSize daily_handler second_day + 40 > maxBytes daily_handler \<and>
   \<not> 100 \<ge> rolloverAt daily_handler"
  by (simp add: disabled_check full_check second_day_size) (simp add: daily_handler_def)


text \<open>
  C10. In a rollover with a positive retention count, when no file has the name
  \<open>dfn.001\<close>, the base file is renamed to exactly that name, whatever other backups
  the directory holds: the archiving step is the renaming to \<open>dfn.001\<close> followed by
  the pruning, and in a well-formed directory with a base file the renamed file has
  the content of the base file and the base name is free afterwards.
\<close>

theorem first_backup_number_is_one:
  assumes "0 < backupCount h" and "\<not> path_exists fs (archive_name L h t @ ''.001'')"
  shows "numbered_rotate fs (baseFilename h) (archive_name L h t) =
           Some (rotate fs (baseFilename h) (archive_name L h t @ ''.001'')) \<and>
         archive h (archive_name L h t) fs =
           (case rotate fs (baseFilename h) (archive_name L h t @ ''.001'') of
              Inl e \<Rightarrow> Some (Inl e)
            | Inr fs1 \<Rightarrow> Some (remove_each fs1 (getFilesToDelete h fs1))) \<and>
         (wf_dir fs \<and> path_exists fs (baseFilename h) \<longrightarrow>
            (\<exists>fs1. rotate fs (baseFilename h) (archive_name L h t @ ''.001'') = Inr fs1 \<and>
               read_file fs1 (archive_name L h t @ ''.001'') = read_file fs (baseFilename h) \<and>
               \<not> path_exists fs1 (baseFilename h)))"
proof -
  define dfn where "dfn = archive_name L h t"
  from assms(2) have free: "\<not> path_exists fs (numbered dfn 1)"
    by (simp add: numbered_1 dfn_def)
  have nr: "numbered_rotate fs (baseFilename h) dfn = Some (rotate fs (baseFilename h) (dfn @ ''.001''))"
    using numbered_rotate_free [OF free] by (simp add: numbered_1)
  have ar: "archive h dfn fs =
      (case rotate fs (baseFilename h) (dfn @ ''.001'') of
         Inl e \<Rightarrow> Some (Inl e)
       | Inr fs1 \<Rightarrow> Some (remove_each fs1 (getFilesToDelete h fs1)))"
    using assms(1) by (simp add: archive_def nr split: sum.splits)
  have ne: "baseFilename h \<noteq> dfn @ ''.001''"
    using archive_name_not_base(2) [of L h t] by (simp add: numbered_1 dfn_def)
  have "\<exists>fs1. rotate fs (baseFilename h) (dfn @ ''.001'') = Inr fs1 \<and>
          read_file fs1 (dfn @ ''.001'') = read_file fs (baseFilename h) \<and>
          \<not> path_exists fs1 (baseFilename h)"
    if wf: "wf_dir fs" and ex: "path_exists fs (baseFilename h)"
  proof -
    from read_file_renamed [OF wf ex ne] ex
    obtain fs1 where r: "rotate fs (baseFilename h) (dfn @ ''.001'') = Inr fs1"
      and rd: "read_file fs1 (dfn @ ''.001'') = read_file fs (baseFilename h)"
      by (simp add: rotate_def)
    from rotate_no_src [OF r ne] r rd show ?thesis by blast
  qed
  with nr ar show ?thesis by (simp add: dfn_def)
qed

theorem first_backup_number_is_one_witness:
  "0 < backupCount daily_handler \<and>
   \<not> path_exists (files second_day) (archive_name plain_lib (daily_handler\<lparr>stream := None\<rparr>) 172800 @ ''.001'') \<and>
   wf_dir (files second_day) \<and> path_exists (files second_day) ''app.log'' \<and>
   numbered_rotate (files second_day) ''app.log'' ''app.log.1970-01-02'' =
     Some (rotate (files second_day) ''app.log'' ''app.log.1970-01-02.001'') \<and>
   (\<exists>fs1. rotate (files second_day) ''app.log'' ''app.log.1970-01-02.001'' = Inr fs1 \<and>
      read_file fs1 ''app.log.1970-01-02.001'' = Some ''second day'' \<and>
      \<not> path_exists fs1 ''app.log'')"
proof -
  have a: "0 < backupCount (daily_handler\<lparr>stream := None\<rparr>)" by (simp add: daily_handler_def)
  have b: "\<not> path_exists (files second_day)
      (archive_name plain_lib (daily_handler\<lparr>stream := None\<rparr>) 172800 @ ''.001'')"
    by (simp add: daily_archive_name path_exists_def listdir_def second_day_def)
  have c: "path_exists (files second_day) ''app.log''"
    by (simp add: path_exists_def listdir_def second_day_def)
  have d: "read_file (files second_day) ''app.log'' = Some ''second day''"
    by (simp add: read_file_def second_day_def)
  have e: "baseFilename daily_handler = ''app.log''" by (simp add: daily_handler_def)
  from first_backup_number_is_one [OF a b] a b c d second_day_wf show ?thesis
    by (simp add: daily_archive_name e)
qed

text \<open>
  C9. The claim is what the method should do; the code prints. At the rollover of
  the daily handler, which has a header and opens the new segment at once, line 86
  writes the line \<^verbatim>\<open>Hi!\<close> to the console.
\<close>

theorem rollover_prints_hi:
  "map_option (map_sum id (console \<circ> snd)) (doRollover plain_lib 172800 daily_handler second_day) =
     Some (Inr [''Hi!''])"
  by (simp add: second_day_doRollover)

text \<open>
  C4 (amended). With a positive interval the computation of lines 89 to 101
  returns; the value it stores in \<open>rolloverAt\<close> is later than the current time
  minus one hour, and later than the current time itself whenever the handler
  works in UTC, or has no midnight or weekly unit, or daylight-saving time is in
  force at the current time.
\<close>

theorem rolloverAt_after_now:
  assumes "0 < interval h"
  shows "\<exists>r. next_rolloverAt L h now = Some r \<and> now - 3600 < r \<and>
     (utc h \<or> isdst L now \<or> \<not> (when_unit h = ''MIDNIGHT'' \<or> startswith (when_unit h) ''W'')
        \<longrightarrow> now < r)"
proof -
  from advance_past [OF assms, of now "computeRollover L h now"] obtain x where
    "advance (interval h) now (computeRollover L h now) = Some x" "now < x" by blast
  then show ?thesis by (auto simp: next_rolloverAt_def dst_adjust_cases)
qed

theorem rolloverAt_after_now_witness:
  "0 < interval daily_handler \<and> utc daily_handler \<and>
   next_rolloverAt plain_lib daily_handler 172800 = Some 259200 \<and> (172800 :: int) < 259200"
  using rolloverAt_after_now [of daily_handler plain_lib 172800] daily_next_plain
  by (simp add: daily_handler_def)

text \<open>
  C4 as stated fails. Half an hour before a local midnight at which daylight-saving
  time starts, the library gives that midnight as the next time, the loop of lines
  90 and 91 leaves it, and lines 93 to 100 take an hour off: the new \<open>rolloverAt\<close>
  is half an hour before the current time.
\<close>

theorem rolloverAt_in_the_past:
  "next_rolloverAt spring_lib midnight_handler 84600 = Some 82800 \<and>
   map_option (map_sum id (rolloverAt \<circ> fst))
     (doRollover spring_lib 84600 midnight_handler first_day) = Some (Inr 82800) \<and>
   \<not> (84600 :: int) < 82800"
  by (simp add: spring_next spring_doRollover)

text \<open>
  C5 (amended). The adjustment is applied exactly when the unit is \<^verbatim>\<open>MIDNIGHT\<close> or
  starts with \<^verbatim>\<open>W\<close> and the handler is not in UTC. It compares the daylight-saving
  flag at the current time, sampled at the start of the rollover, with the flag at
  the newly computed time; when they differ it takes 3600 seconds off if
  daylight-saving time is in force at the new time and adds 3600 seconds if not.
\<close>

theorem dst_compensation_rule:
  "next_rolloverAt L h now =
     map_option
       (\<lambda>r. if (when_unit h = ''MIDNIGHT'' \<or> startswith (when_unit h) ''W'') \<and> \<not> utc h \<and>
                isdst L now \<noteq> isdst L r
             then (if isdst L r then r - 3600 else r + 3600) else r)
       (advance (interval h) now (computeRollover L h now))"
  by (simp add: next_rolloverAt_def dst_adjust_cases split: option.splits)

text \<open>
  C5 as stated fails: the flag at the start of the closed segment is read on line
  61 for the name of the archive only. Where daylight-saving time ended during the
  segment, that flag differs from the one at the new time, and the claim has an
  hour added; the code compares the flag of the current time, finds no change and
  adds nothing.
\<close>

theorem dst_flag_of_segment_start_unused:
  "isdst autumn_lib (rolloverAt midnight_handler - interval midnight_handler) \<noteq>
     isdst autumn_lib 172800 \<and>
   dst_adjust_claimed autumn_lib midnight_handler 172800 = 176400 \<and>
   next_rolloverAt autumn_lib midnight_handler 86400 = Some 172800"
  by (simp add: autumn_next dst_adjust_claimed_def)
     (simp add: autumn_lib_def midnight_handler_def daily_handler_def)

text \<open>
  C8 (amended). The constructor checks none of the three numbers: for every size
  threshold, retention count and interval, negative ones included, construction
  in mode \<^verbatim>\<open>a\<close> with a unit the library knows yields a handler that stores the
  threshold and the count as given and the interval multiplied by the seconds of
  the unit. No ConfigError exists; the one failure of the arguments is the
  library's ValueError for an unknown unit.
\<close>

theorem init_accepts_numbers:
  assumes "timed_unit (upper (c_when c)) = Inr (u, sfx)" and "c_mode c = ''a''"
  shows "\<exists>h w'. init L now c w = Inr (h, w') \<and> maxBytes h = c_maxBytes c \<and>
           backupCount h = c_backupCount c \<and> interval h = u * c_interval c"
proof -
  have "\<exists>fs1 s1. file_handler_init (files w) (c_filename c)
      (if c_maxBytes c > 0 then ''a'' else c_mode c) (c_delay c) = Inr (fs1, s1)"
    using assms(2) by (simp add: file_handler_init_def os_open_append)
  then obtain fs1 s1 where f1: "file_handler_init (files w) (c_filename c)
      (if c_maxBytes c > 0 then ''a'' else c_mode c) (c_delay c) = Inr (fs1, s1)"
    by blast
  have "\<exists>fs2 s2. file_handler_init fs1 (c_filename c) ''a'' (c_delay c) = Inr (fs2, s2)"
    by (simp add: file_handler_init_def os_open_append)
  then obtain fs2 s2 where
    f2: "file_handler_init fs1 (c_filename c) ''a'' (c_delay c) = Inr (fs2, s2)"
    by blast
  show ?thesis
    by (cases "c_header c") (simp_all add: init_def f1 f2 assms(1) Let_def)
qed

theorem init_accepts_numbers_witness:
  "timed_unit (upper (c_when daily_config)) = Inr (86400, ''%Y-%m-%d'') \<and>
   c_mode daily_config = ''a'' \<and>
   (\<exists>h w'. init plain_lib 0 daily_config empty_dir = Inr (h, w') \<and> maxBytes h = 50 \<and>
      backupCount h = 1 \<and> interval h = 86400)"
proof -
  have u: "timed_unit (upper (c_when daily_config)) = Inr (86400, ''%Y-%m-%d'')"
    by (simp add: daily_config_def upper_d daily_unit)
  have m: "c_mode daily_config = ''a''" by (simp add: daily_config_def)
  from init_accepts_numbers [OF u m, of plain_lib 0 empty_dir] u m show ?thesis
    by (simp add: daily_config_def)
qed

text \<open>
  C8 as stated fails: with a size threshold of -1, a retention count of -1 and an
  interval of -7 days, construction returns a handler.
\<close>

theorem init_accepts_negative_numbers:
  "init plain_lib 0
     (daily_config\<lparr>c_maxBytes := - 1, c_backupCount := - 1, c_interval := - 7, c_header := None\<rparr>)
     empty_dir =
   Inr (daily_handler\<lparr>maxBytes := - 1, backupCount := - 1, interval := - 604800,
          header := None, rolloverAt := - 604800\<rparr>,
        \<lparr>files = [(''app.log'', [])], console = []\<rparr>)"
  using negative_init by (simp add: negative_config_def)

text \<open>
  C6 (amended). Where the constructor or a rollover opens the segment at once
  (\<^verbatim>\<open>delay\<close> is false) and a header is configured, the header text and one line
  terminator are what is written, and nothing else: after construction the base
  file holds what it kept from before, nothing for a new file, followed by the
  header and the terminator; after every run of one or more rollovers that returns
  the base file holds the header and the terminator and nothing else; and a
  rollover in a well-formed directory, with the name of the numbered backup free,
  a positive interval and mode \<^verbatim>\<open>a\<close>, does return. With \<^verbatim>\<open>delay\<close> set neither of them
  opens a segment or writes a header.
\<close>

theorem header_starts_segment:
  "(init L now c w0 = Inr (h0, w1) \<and> \<not> c_delay c \<and> c_header c = Some txt \<longrightarrow>
      read_file (files w1) (c_filename c) =
        Some ((case read_file (files w0) (c_filename c) of
                 None \<Rightarrow> []
               | Some old \<Rightarrow> if c_maxBytes c \<le> 0 \<and> CHR ''w'' \<in> set (c_mode c) then [] else old)
              @ txt @ [CHR 0x0A])) \<and>
   (rollovers L ts h w = Some (Inr (hn, wn)) \<and> ts \<noteq> [] \<and> \<not> delay h \<and> header h = Some txt \<longrightarrow>
      read_file (files wn) (baseFilename h) = Some (txt @ [CHR 0x0A])) \<and>
   (wf_dir (files w) \<and>
    (0 < backupCount h \<longrightarrow>
       \<not> path_exists (files w) (numbered (archive_name L (h\<lparr>stream := None\<rparr>) t) 1)) \<and>
    0 < interval h \<and> mode h = ''a'' \<and> \<not> delay h \<and> header h = Some txt \<longrightarrow>
      (\<exists>h2 w2. doRollover L t h w = Some (Inr (h2, w2)) \<and>
         read_file (files w2) (baseFilename h) = Some (txt @ [CHR 0x0A]))) \<and>
   (delay h \<and> doRollover L t h w = Some (Inr (h3, w3)) \<longrightarrow>
      stream h3 = None \<and> \<not> path_exists (files w3) (baseFilename h) \<and> console w3 = console w)"
proof (intro conjI impI)
  assume "init L now c w0 = Inr (h0, w1) \<and> \<not> c_delay c \<and> c_header c = Some txt"
  then show "read_file (files w1) (c_filename c) =
        Some ((case read_file (files w0) (c_filename c) of
                 None \<Rightarrow> []
               | Some old \<Rightarrow> if c_maxBytes c \<le> 0 \<and> CHR ''w'' \<in> set (c_mode c) then [] else old)
              @ txt @ [CHR 0x0A])"
    by (blast intro: init_header)
next
  assume "rollovers L ts h w = Some (Inr (hn, wn)) \<and> ts \<noteq> [] \<and> \<not> delay h \<and> header h = Some txt"
  then have "read_file (files wn) (baseFilename h) = Some (header_line txt)"
    by (blast intro: rollovers_header)
  then show "read_file (files wn) (baseFilename h) = Some (txt @ [CHR 0x0A])"
    by (simp add: header_line_def)
next
  assume a: "wf_dir (files w) \<and>
    (0 < backupCount h \<longrightarrow>
       \<not> path_exists (files w) (numbered (archive_name L (h\<lparr>stream := None\<rparr>) t) 1)) \<and>
    0 < interval h \<and> mode h = ''a'' \<and> \<not> delay h \<and> header h = Some txt"
  then obtain h2 w2 where r: "doRollover L t h w = Some (Inr (h2, w2))"
    using doRollover_returns [of w h L t] by blast
  from doRollover_header [OF r] a
  have "read_file (files w2) (baseFilename h) = Some (txt @ [CHR 0x0A])"
    by (simp add: header_line_def)
  with r show "\<exists>h2 w2. doRollover L t h w = Some (Inr (h2, w2)) \<and>
         read_file (files w2) (baseFilename h) = Some (txt @ [CHR 0x0A])"
    by blast
next
  assume a: "delay h \<and> doRollover L t h w = Some (Inr (h3, w3))"
  define h0 where "h0 = h\<lparr>stream := None\<rparr>"
  from a obtain fs2 r where
    ar: "archive h0 (archive_name L h0 t) (files w) = Some (Inr fs2)"
    and re: "reopen h0 (w\<lparr>files := fs2\<rparr>) = Inr (h3\<lparr>rolloverAt := rolloverAt h0\<rparr>, w3)"
    and h3: "h3 = h0\<lparr>rolloverAt := r\<rparr>" and w3: "w3 = w\<lparr>files := fs2\<rparr>"
    by (auto simp: doRollover_def Let_def h0_def reopen_def split: option.splits sum.splits)
  from archive_no_base [OF ar] archive_name_not_base [of L h0 t]
  have "\<not> path_exists fs2 (baseFilename h)" by (simp add: h0_def)
  with h3 w3 show "stream h3 = None" "\<not> path_exists (files w3) (baseFilename h)"
    "console w3 = console w"
    by (simp_all add: h0_def)
qed

theorem header_starts_segment_witness:
  "init plain_lib 0 daily_config empty_dir =
     Inr (daily_handler\<lparr>rolloverAt := 86400\<rparr>,
          \<lparr>files = [(''app.log'', header_line ''HDR'')], console = []\<rparr>) \<and>
   \<not> c_delay daily_config \<and> c_header daily_config = Some ''HDR'' \<and>
   read_file [(''app.log'', header_line ''HDR'')] ''app.log'' = Some (''HDR'' @ [CHR 0x0A]) \<and>
   rollovers plain_lib [172800] daily_handler second_day =
     Some (Inr (daily_handler\<lparr>stream := Some ''app.log'', rolloverAt := 259200\<rparr>,
       \<lparr>files = [(''app.log.1970-01-02.001'', ''second day''),
                 (''app.log'', header_line ''HDR'')],
        console = [''Hi!'']\<rparr>)) \<and>
   [172800] \<noteq> ([] :: int list) \<and> \<not> delay daily_handler \<and> header daily_handler = Some ''HDR'' \<and>
   read_file [(''app.log.1970-01-02.001'', ''second day''), (''app.log'', header_line ''HDR'')]
     ''app.log'' = Some (''HDR'' @ [CHR 0x0A]) \<and>
   wf_dir (files second_day) \<and>
   \<not> path_exists (files second_day)
       (numbered (archive_name plain_lib (daily_handler\<lparr>stream := None\<rparr>) 172800) 1) \<and>
   0 < interval daily_handler \<and> mode daily_handler = ''a'' \<and>
   delay deferred_handler \<and>
   doRollover plain_lib 172800 deferred_handler second_day =
     Some (Inr (deferred_handler\<lparr>stream := None, rolloverAt := 259200\<rparr>,
       \<lparr>files = [(''app.log.1970-01-02.001'', ''second day'')], console = []\<rparr>)) \<and>
   \<not> path_exists [(''app.log.1970-01-02.001'', ''second day'')] (baseFilename deferred_handler)"
proof -
  define hn where "hn = daily_handler\<lparr>stream := Some ''app.log'', rolloverAt := 259200\<rparr>"
  define wn where "wn = \<lparr>files = [(''app.log.1970-01-02.001'', ''second day''),
      (''app.log'', header_line ''HDR'')], console = [''Hi!'']\<rparr>"
  define hd where "hd = deferred_handler\<lparr>stream := None, rolloverAt := 259200\<rparr>"
  define wd where "wd = \<lparr>files = [(''app.log.1970-01-02.001'', ''second day'')],
      console = ([] :: string list)\<rparr>"
  have c: "\<not> c_delay daily_config" "c_header daily_config = Some ''HDR''"
    "c_filename daily_config = ''app.log''"
    by (simp_all add: daily_config_def)
  have d: "\<not> delay daily_handler" "header daily_handler = Some ''HDR''"
    "0 < interval daily_handler" "mode daily_handler = ''a''"
    "baseFilename daily_handler = ''app.log''"
    by (simp_all add: daily_handler_def)
  have e: "delay deferred_handler" "baseFilename deferred_handler = ''app.log''"
    by (simp_all add: deferred_handler_def daily_handler_def)
  have free: "\<not> path_exists (files second_day)
       (numbered (archive_name plain_lib (daily_handler\<lparr>stream := None\<rparr>) 172800) 1)"
    using second_day_free by (simp add: daily_archive_name)
  have r: "rollovers plain_lib [172800] daily_handler second_day = Some (Inr (hn, wn))"
    using second_day_rollovers by (simp add: hn_def wn_def)
  have dr: "doRollover plain_lib 172800 deferred_handler second_day = Some (Inr (hd, wd))"
    using deferred_doRollover by (simp add: hd_def wd_def)
  note one = header_starts_segment [of plain_lib 0 daily_config empty_dir
      "daily_handler\<lparr>rolloverAt := 86400\<rparr>"
      "\<lparr>files = [(''app.log'', header_line ''HDR'')], console = []\<rparr>" "''HDR''"
      "[172800]" daily_handler second_day hn wn 172800 hn wn]
  note two = header_starts_segment [of plain_lib 0 daily_config empty_dir
      "daily_handler\<lparr>rolloverAt := 86400\<rparr>"
      "\<lparr>files = [(''app.log'', header_line ''HDR'')], console = []\<rparr>" "''HDR''"
      "[172800]" deferred_handler second_day hn wn 172800 hd wd]
  from one daily_init c have i1: "read_file [(''app.log'', header_line ''HDR'')] ''app.log'' =
      Some (''HDR'' @ [CHR 0x0A])"
    by (simp add: empty_dir_def read_file_def)
  from one r d have i2: "read_file (files wn) ''app.log'' = Some (''HDR'' @ [CHR 0x0A])"
    by simp
  from two e dr have i4: "\<not> path_exists (files wd) (baseFilename deferred_handler)"
    by simp
  from daily_init c r d second_day_wf free e dr i1 i2 i4 show ?thesis
    unfolding hn_def wn_def hd_def wd_def by simp
qed

text \<open>
  C6 as stated fails for a rollover of a handler with \<^verbatim>\<open>delay\<close> set, whatever header
  is configured: line 83 skips the opening and the header, the rollover leaves no
  base file and no stream, and the segment that the library opens for the next
  record begins with the record.
\<close>

theorem header_not_written_when_deferred:
  "header deferred_handler = Some ''HDR'' \<and>
   doRollover plain_lib 172800 deferred_handler second_day =
     Some (Inr (deferred_handler\<lparr>stream := None, rolloverAt := 259200\<rparr>,
       \<lparr>files = [(''app.log.1970-01-02.001'', ''second day'')], console = []\<rparr>)) \<and>
   file_emit (deferred_handler\<lparr>stream := None, rolloverAt := 259200\<rparr>)
       \<lparr>files = [(''app.log.1970-01-02.001'', ''second day'')], console = []\<rparr> ''record'' =
     Inr (deferred_handler\<lparr>stream := Some ''app.log'', rolloverAt := 259200\<rparr>,
          \<lparr>files = [(''app.log.1970-01-02.001'', ''second day''),
                    (''app.log'', ''record'' @ [CHR 0x0A])], console = []\<rparr>)"
  using deferred_doRollover deferred_emit
  by (simp add: deferred_handler_def daily_handler_def)

text \<open>
  C7 (amended). With a retention count of 0 (the code takes this branch for every
  count that is not positive) a rollover deletes the file at the archive name
  \<open>dfn\<close>, if there is one, and renames the base file to \<open>dfn\<close>, with no number and no
  pruning: in a well-formed directory the step returns, \<open>dfn\<close> then holds what the
  base file held and is there only if the base file was, the base name is free
  and every other file is as before. So at most one archive exists for each
  name \<open>dfn\<close>, and a rollover that computes the same name replaces it.
\<close>

theorem overwrite_mode:
  assumes "backupCount h \<le> 0" and "wf_dir fs" and "dfn \<noteq> baseFilename h"
  shows "archive h dfn fs =
           Some (rotate (filter (\<lambda>e. fst e \<noteq> dfn) fs) (baseFilename h) dfn) \<and>
         (\<exists>fs'. archive h dfn fs = Some (Inr fs') \<and> wf_dir fs' \<and>
            read_file fs' dfn = read_file fs (baseFilename h) \<and>
            read_file fs' (baseFilename h) = None \<and>
            (\<forall>p. p \<noteq> dfn \<and> p \<noteq> baseFilename h \<longrightarrow> read_file fs' p = read_file fs p))"
proof
  show "archive h dfn fs = Some (rotate (filter (\<lambda>e. fst e \<noteq> dfn) fs) (baseFilename h) dfn)"
    by (rule archive_overwrite [OF assms(1)])
  show "\<exists>fs'. archive h dfn fs = Some (Inr fs') \<and> wf_dir fs' \<and>
            read_file fs' dfn = read_file fs (baseFilename h) \<and>
            read_file fs' (baseFilename h) = None \<and>
            (\<forall>p. p \<noteq> dfn \<and> p \<noteq> baseFilename h \<longrightarrow> read_file fs' p = read_file fs p)"
    by (rule overwrite_result [OF assms])
qed

theorem overwrite_mode_witness:
  "backupCount overwrite_handler \<le> 0 \<and> wf_dir (files first_day) \<and>
   ''app.log.1970-01-01'' \<noteq> baseFilename overwrite_handler \<and>
   (\<exists>fs'. archive overwrite_handler ''app.log.1970-01-01'' (files first_day) = Some (Inr fs') \<and>
      wf_dir fs' \<and> read_file fs' ''app.log.1970-01-01'' = Some ''first day'' \<and>
      read_file fs' ''app.log'' = None)"
proof -
  have a: "backupCount overwrite_handler \<le> 0"
    by (simp add: overwrite_handler_def)
  have b: "wf_dir (files first_day)" by (simp add: wf_dir_def first_day_def)
  have c: "''app.log.1970-01-01'' \<noteq> baseFilename overwrite_handler"
    by (simp add: overwrite_handler_def daily_handler_def)
  have d: "read_file (files first_day) ''app.log'' = Some ''first day''"
    by (simp add: read_file_def first_day_def)
  have e: "baseFilename overwrite_handler = ''app.log''"
    by (simp add: overwrite_handler_def daily_handler_def)
  from overwrite_mode [OF a b c]
  have "\<exists>fs'. archive overwrite_handler ''app.log.1970-01-01'' (files first_day) = Some (Inr fs') \<and>
      wf_dir fs' \<and>
      read_file fs' ''app.log.1970-01-01'' = read_file (files first_day) (baseFilename overwrite_handler) \<and>
      read_file fs' (baseFilename overwrite_handler) = None \<and>
      (\<forall>p. p \<noteq> ''app.log.1970-01-01'' \<and> p \<noteq> baseFilename overwrite_handler \<longrightarrow>
         read_file fs' p = read_file (files first_day) p)"
    by (rule conjunct2)
  then obtain fs' where
    f: "archive overwrite_handler ''app.log.1970-01-01'' (files first_day) = Some (Inr fs')"
    "wf_dir fs'"
    "read_file fs' ''app.log.1970-01-01'' = read_file (files first_day) (baseFilename overwrite_handler)"
    "read_file fs' (baseFilename overwrite_handler) = None"
    by (elim exE conjE)
  from f(3) have "read_file fs' ''app.log.1970-01-01'' = read_file (files first_day) ''app.log''"
    unfolding e .
  also note d
  finally have g3: "read_file fs' ''app.log.1970-01-01'' = Some ''first day''" .
  from f(4) have g4: "read_file fs' ''app.log'' = None" unfolding e .
  show ?thesis
  proof (intro conjI exI)
    show "backupCount overwrite_handler \<le> 0" by (rule a)
    show "wf_dir (files first_day)" by (rule b)
    show "''app.log.1970-01-01'' \<noteq> baseFilename overwrite_handler" by (rule c)
    show "archive overwrite_handler ''app.log.1970-01-01'' (files first_day) = Some (Inr fs')"
      by (rule f(1))
    show "wf_dir fs'" by (rule f(2))
    show "read_file fs' ''app.log.1970-01-01'' = Some ''first day''" by (rule g3)
    show "read_file fs' ''app.log'' = None" by (rule g4)
  qed
qed

text \<open>
  C7 as stated fails in its last part: the archive name carries the date of the
  closed segment, so two rollovers on consecutive days leave two archived files.
\<close>

theorem overwrite_mode_two_archives:
  "rollovers plain_lib [86400, 172800] overwrite_handler first_day =
     Some (Inr (overwrite_handler\<lparr>rolloverAt := 259200\<rparr>,
       \<lparr>files = [(''app.log.1970-01-01'', ''first day''), (''app.log.1970-01-02'', []),
                 (''app.log'', [])], console = []\<rparr>)) \<and>
   archived overwrite_handler
     [(''app.log.1970-01-01'', ''first day''), (''app.log.1970-01-02'', []), (''app.log'', [])] =
     [''app.log.1970-01-01'', ''app.log.1970-01-02'']"
proof
  show "rollovers plain_lib [86400, 172800] overwrite_handler first_day =
     Some (Inr (overwrite_handler\<lparr>rolloverAt := 259200\<rparr>,
       \<lparr>files = [(''app.log.1970-01-01'', ''first day''), (''app.log.1970-01-02'', []),
                 (''app.log'', [])], console = []\<rparr>))"
    by (rule overwrite_twice)
  have "baseFilename overwrite_handler = ''app.log''"
    by (simp add: overwrite_handler_def daily_handler_def)
  then show "archived overwrite_handler
     [(''app.log.1970-01-01'', ''first day''), (''app.log.1970-01-02'', []), (''app.log'', [])] =
     [''app.log.1970-01-01'', ''app.log.1970-01-02'']"
    by (simp add: archived_def listdir_def startswith_def)
qed

end
